theory Spec2Isabelle
  imports
    Complex_Main
    "HOL-Library.AList"
    "HOL-Library.Char_ord"
    "HOL-Library.List_Lexorder"
    "HOL-Library.Multiset"
begin

section \<open>Rain- and flood-informed vehicle routing: the model of \<^verbatim>\<open>rainfall_routing.py\<close>\<close>

text \<open>
  Python integers are \<open>int\<close>. A Python float (a coordinate, a travel time, a weight) is a
  binary64 number, and each such number is a \<open>real\<close>; comparisons of floats are exact,
  but the sum, the difference and the quotient of two floats are rounded. Every exception the
  source can raise is a value of \<open>error\<close>, and a function that can raise returns
  \<open>error + 'a\<close> with \<open>Inl\<close> for the exception.
\<close>

datatype error = TypeError | KeyError | IndexError | ValueError | ZeroDivisionError | NetworkXNoPath

text \<open>
  The rounded operations \<^verbatim>\<open>+\<close>, \<^verbatim>\<open>-\<close> and \<^verbatim>\<open>/\<close> on floats are parameters of the model, the
  fields of a record; what is proved for every such record holds for the operations of the
  machine. The record \<open>exact\<close> has the operations of the reals: it computes what the machine
  computes wherever the result of the machine needs no rounding, as with whole numbers up
  to \<open>2\<^sup>5\<^sup>3\<close> and with halves of small whole numbers.
\<close>

record floats =
  fadd :: "real \<Rightarrow> real \<Rightarrow> real"
  fsub :: "real \<Rightarrow> real \<Rightarrow> real"
  fdiv :: "real \<Rightarrow> real \<Rightarrow> real"

definition exact :: floats where
  "exact = \<lparr>fadd = (\<lambda>a b. a + b), fsub = (\<lambda>a b. a - b), fdiv = (\<lambda>a b. a / b)\<rparr>"

subsection \<open>The clock: class \<^verbatim>\<open>Agora\<close>\<close>

record agora =
  year :: int
  month :: int
  day :: int
  hour :: int
  minute :: int
  second :: int

text \<open>
  \<^verbatim>\<open>Agora.step\<close>. Python's \<^verbatim>\<open>//\<close> and \<^verbatim>\<open>%\<close> on integers round towards minus
  infinity, as \<open>div\<close> and \<open>mod\<close> on \<open>int\<close> do.
\<close>

definition step :: "agora \<Rightarrow> int \<Rightarrow> agora" where
  "step self integer =
    (let total_seconds = second self + integer;
         second' = total_seconds mod 60;
         total_minutes = (total_seconds - second') div 60 + minute self;
         minute' = total_minutes mod 60;
         total_hours = (total_minutes - minute') div 60 + hour self;
         hour' = total_hours mod 24
     in self\<lparr>second := second', minute := minute', hour := hour',
              day := day self + (total_hours - hour') div 24\<rparr>)"

text \<open>The instant a timestamp denotes within its month, in seconds.\<close>

definition seconds_in_month :: "agora \<Rightarrow> int" where
  "seconds_in_month t = second t + 60 * minute t + 3600 * hour t + 86400 * day t"

text \<open>The time-of-day fields are in range (the invariant of the spec's Timestamp).\<close>

definition normalized :: "agora \<Rightarrow> bool" where
  "normalized t \<longleftrightarrow>
     0 \<le> second t \<and> second t < 60 \<and> 0 \<le> minute t \<and> minute t < 60 \<and> 0 \<le> hour t \<and> hour t < 24"


subsection \<open>Rendering integers: the format specs \<^verbatim>\<open>04d\<close> and \<^verbatim>\<open>02d\<close>\<close>

definition digit_char :: "nat \<Rightarrow> char" where
  "digit_char d = ''0123456789'' ! (d mod 10)"

function digits :: "nat \<Rightarrow> string" where
  "digits n = (if n < 10 then [digit_char n] else digits (n div 10) @ [digit_char (n mod 10)])"
  by pat_completeness auto
termination
  by (relation "measure id") auto

text \<open>
  \<^verbatim>\<open>format(x, '0wd')\<close>: the decimal digits, padded with zeros on the left to width \<open>w\<close>;
  the sign of a negative number comes first and counts in the width.
\<close>

definition zfill :: "nat \<Rightarrow> string \<Rightarrow> string" where
  "zfill w s = replicate (w - length s) (CHR ''0'') @ s"

definition format_0d :: "nat \<Rightarrow> int \<Rightarrow> string" where
  "format_0d w x =
    (if x < 0 then CHR ''-'' # zfill (w - 1) (digits (nat (- x))) else zfill w (digits (nat x)))"

text \<open>\<^verbatim>\<open>Agora.__repr__\<close>: the key \<^verbatim>\<open>YYYYMMDDHHMM\<close> of the radar files.\<close>

definition repr :: "agora \<Rightarrow> string" where
  "repr self = format_0d 4 (year self) @ format_0d 2 (month self) @ format_0d 2 (day self)
     @ format_0d 2 (hour self) @ format_0d 2 (minute self)"

subsection \<open>Flood reports: \<^verbatim>\<open>Agora.get_flooding_points\<close>\<close>

text \<open>
  A row of the spreadsheet that \<^verbatim>\<open>pd.read_excel\<close> returns. The date and the two times
  are compared with formatted strings, so they are strings here, ordered as Python orders
  strings (lexicographically, by character code).
\<close>

record flood_row =
  DATE :: string
  START_T :: string
  END_T :: string
  X :: real
  Y :: real

text \<open>
  \<^verbatim>\<open>convert_coordinates\<close> hands the pair to a \<^verbatim>\<open>pyproj\<close> transformer (UTM 23S to
  EPSG 4326); the transformer is a parameter.
\<close>

definition convert_coordinates :: "(real \<Rightarrow> real \<Rightarrow> real \<times> real) \<Rightarrow> real \<Rightarrow> real \<Rightarrow> real \<times> real" where
  "convert_coordinates transform longitude latitude = transform longitude latitude"

text \<open>The spreadsheet \<open>flood_df\<close> that the download yields is a parameter.\<close>

definition get_flooding_points ::
  "(real \<Rightarrow> real \<Rightarrow> real \<times> real) \<Rightarrow> flood_row list \<Rightarrow> agora \<Rightarrow> (real \<times> real) list" where
  "get_flooding_points transform flood_df self =
    (let date = format_0d 4 (year self) @ ''-'' @ format_0d 2 (month self) @ ''-''
                  @ format_0d 2 (day self);
         start_time = format_0d 2 (hour self) @ '':'' @ format_0d 2 (minute self) @ '':''
                  @ format_0d 2 (second self);
         my_floods = filter (\<lambda>r. DATE r = date \<and> START_T r < start_time \<and> END_T r > start_time)
                       flood_df;
         flooding_points = map (\<lambda>r. (X r, Y r)) my_floods
     in map (\<lambda>(x, y). convert_coordinates transform x y) flooding_points)"

subsection \<open>The road network: class \<^verbatim>\<open>Grafo\<close>\<close>

text \<open>
  A \<^verbatim>\<open>networkx.MultiDiGraph\<close>: the node dictionary maps a node to its coordinates
  \<open>(x, y)\<close>, that is (longitude, latitude); the edges are kept in iteration order, each key
  \<open>(u, v, k)\<close> with its attributes. An edge attribute that may be missing is an option.
\<close>

type_synonym node = int
type_synonym edge = "node \<times> node \<times> nat"

record edge_data =
  travel_time :: real
  geometry :: "(real \<times> real) list option"
  weight :: "real option"

record multidigraph =
  nodes :: "node \<rightharpoonup> real \<times> real"
  edges :: "(edge \<times> edge_data) list"

record grafo =
  lat0 :: real
  latoo :: real
  lon0 :: real
  lonoo :: real
  graph :: multidigraph

text \<open>Running a function that may raise over a list stops at the first exception.\<close>

fun map_err :: "('a \<Rightarrow> error + 'b) \<Rightarrow> 'a list \<Rightarrow> error + 'b list" where
  "map_err f [] = Inr []"
| "map_err f (x # xs) =
    (case f x of Inl e \<Rightarrow> Inl e
     | Inr y \<Rightarrow> (case map_err f xs of Inl e \<Rightarrow> Inl e | Inr ys \<Rightarrow> Inr (y # ys)))"

text \<open>\<^verbatim>\<open>min\<close> and \<^verbatim>\<open>max\<close> of a list raise \<^verbatim>\<open>ValueError\<close> on the empty list.\<close>

definition py_min :: "'a::linorder list \<Rightarrow> error + 'a" where
  "py_min xs = (if xs = [] then Inl ValueError else Inr (Min (set xs)))"

definition py_max :: "'a::linorder list \<Rightarrow> error + 'a" where
  "py_max xs = (if xs = [] then Inl ValueError else Inr (Max (set xs)))"

text \<open>
  Modelled from the spec: \<^verbatim>\<open>ox.truncate.truncate_graph_bbox\<close> is a library routine that is
  not part of the repository. The spec says that the crop "destructively truncates the
  network to that box": the nodes inside the box (borders included) stay, and so do the
  edges between two nodes that stay.
\<close>

definition inside_bbox :: "real \<Rightarrow> real \<Rightarrow> real \<Rightarrow> real \<Rightarrow> real \<times> real \<Rightarrow> bool" where
  "inside_bbox north south east west p \<longleftrightarrow>
     south \<le> snd p \<and> snd p \<le> north \<and> west \<le> fst p \<and> fst p \<le> east"

definition truncate_graph_bbox :: "multidigraph \<Rightarrow> real \<Rightarrow> real \<Rightarrow> real \<Rightarrow> real \<Rightarrow> multidigraph" where
  "truncate_graph_bbox G north south east west =
    (let keep = (\<lambda>n. case nodes G n of None \<Rightarrow> False | Some p \<Rightarrow> inside_bbox north south east west p)
     in G\<lparr>nodes := (\<lambda>n. if keep n then nodes G n else None),
           edges := filter (\<lambda>(e, d). keep (fst e) \<and> keep (fst (snd e))) (edges G)\<rparr>)"

text \<open>
  \<^verbatim>\<open>Grafo.crop\<close>. The path search \<^verbatim>\<open>nx.astar_path\<close> is a parameter: given the graph, two
  nodes and the name of the weight attribute it returns a path or raises. The margins of the
  box are computed in floats.
\<close>

type_synonym planner = "multidigraph \<Rightarrow> node \<Rightarrow> node \<Rightarrow> string \<Rightarrow> error + node list"

definition node_xy :: "multidigraph \<Rightarrow> node \<Rightarrow> error + real \<times> real" where
  "node_xy G n = (case nodes G n of None \<Rightarrow> Inl KeyError | Some p \<Rightarrow> Inr p)"

definition crop :: "floats \<Rightarrow> planner \<Rightarrow> grafo \<Rightarrow> node \<Rightarrow> node \<Rightarrow> error + grafo" where
  "crop F astar_path self initial_point final_point =
    (case astar_path (graph self) initial_point final_point ''travel_time'' of
       Inl e \<Rightarrow> Inl e
     | Inr gmaps_path \<Rightarrow>
        (case map_err (\<lambda>n. map_sum id snd (node_xy (graph self) n)) gmaps_path of
           Inl e \<Rightarrow> Inl e
         | Inr lats \<Rightarrow>
        (case map_err (\<lambda>n. map_sum id fst (node_xy (graph self) n)) gmaps_path of
           Inl e \<Rightarrow> Inl e
         | Inr lons \<Rightarrow>
        (case py_min lats of Inl e \<Rightarrow> Inl e | Inr lat_min \<Rightarrow>
        (case py_max lats of Inl e \<Rightarrow> Inl e | Inr lat_max \<Rightarrow>
        (case py_min lons of Inl e \<Rightarrow> Inl e | Inr lon_min \<Rightarrow>
        (case py_max lons of Inl e \<Rightarrow> Inl e | Inr lon_max \<Rightarrow>
          (let bbox_lat_min = max (lat0 self) (fsub F lat_min (fsub F lat_max lat_min));
               bbox_lat_max = min (latoo self) (fadd F lat_max (fsub F lat_max lat_min));
               bbox_lon_min = max (lon0 self) (fsub F lon_min (fsub F lon_max lon_min));
               bbox_lon_max = min (lonoo self) (fadd F lon_max (fsub F lon_max lon_min))
           in Inr (self\<lparr>graph := truncate_graph_bbox (graph self)
                                   bbox_lat_max bbox_lat_min bbox_lon_max bbox_lon_min\<rparr>)))))))))"

text \<open>
  \<^verbatim>\<open>Grafo.find_edge_by_nodes\<close>: the first edge from \<open>node1\<close> to \<open>node2\<close>, else the first
  one from \<open>node2\<close> to \<open>node1\<close>, else \<^verbatim>\<open>None\<close> (after printing a message).
\<close>

definition find_edge_by_nodes :: "grafo \<Rightarrow> node \<Rightarrow> node \<Rightarrow> edge option" where
  "find_edge_by_nodes self node1 node2 =
    (let e1 = filter (\<lambda>e. fst e = node1 \<and> fst (snd e) = node2) (map fst (edges (graph self)));
         e2 = filter (\<lambda>e. fst e = node2 \<and> fst (snd e) = node1) (map fst (edges (graph self)));
         edges = e1 @ e2
     in if length edges = 0 then None else Some (hd edges))"


text \<open>
  \<^verbatim>\<open>graph.edges[e]\<close>: the attributes of the edge \<open>e\<close>, \<^verbatim>\<open>KeyError\<close> when the graph has no
  such edge. The lookup unpacks its key, so \<^verbatim>\<open>graph.edges[None]\<close> is a \<^verbatim>\<open>TypeError\<close>.
\<close>

definition edge_attrs :: "multidigraph \<Rightarrow> edge \<Rightarrow> error + edge_data" where
  "edge_attrs G e = (case map_of (edges G) e of None \<Rightarrow> Inl KeyError | Some d \<Rightarrow> Inr d)"

subsection \<open>The precipitation radar: class \<^verbatim>\<open>Radar\<close>\<close>

text \<open>
  \<open>radar_data\<close> stands for the radar files behind \<^verbatim>\<open>source\<close>: for the rendered timestamp
  it gives the parsed lines of the file of that key, or nothing when there is no file.
\<close>

record radar =
  radar_lat0 :: real
  radar_lon0 :: real
  dlat :: real
  dlon :: real
  radar_data :: "string \<Rightarrow> int list list option"

text \<open>\<^verbatim>\<open>Radar.rain_by_time\<close>: a file without lines is no data (\<^verbatim>\<open>if data:\<close>).\<close>

definition rain_by_time :: "radar \<Rightarrow> agora \<Rightarrow> int list list option" where
  "rain_by_time self agora =
    (case radar_data self (repr agora) of
       None \<Rightarrow> None
     | Some A \<Rightarrow> if A = [] then None else Some A)"

text \<open>\<^verbatim>\<open>int(x)\<close> of a float rounds towards zero.\<close>

definition py_int :: "real \<Rightarrow> int" where
  "py_int r = (if r < 0 then \<lceil>r\<rceil> else \<lfloor>r\<rfloor>)"

text \<open>\<^verbatim>\<open>xs[i]\<close>: a negative index counts from the end; out of range is \<^verbatim>\<open>IndexError\<close>.\<close>

definition py_index :: "'a list \<Rightarrow> int \<Rightarrow> error + 'a" where
  "py_index xs i =
    (if 0 \<le> i \<and> i < int (length xs) then Inr (xs ! nat i)
     else if i < 0 \<and> - int (length xs) \<le> i then Inr (xs ! nat (int (length xs) + i))
     else Inl IndexError)"

text \<open>
  The points at which an edge is sampled, as (longitude, latitude): the vertices of its
  geometry when it has one, then its initial and its final node. \<^verbatim>\<open>rain_at_edge\<close> and
  \<^verbatim>\<open>is_flooded\<close> both begin with these lines.
\<close>

definition edge_lonlats :: "multidigraph \<Rightarrow> edge \<Rightarrow> error + (real \<times> real) list" where
  "edge_lonlats G edge =
    (case edge_attrs G edge of
       Inl e \<Rightarrow> Inl e
     | Inr d \<Rightarrow>
        (let lonlats = (case geometry d of Some coords \<Rightarrow> coords | None \<Rightarrow> []) in
         case node_xy G (fst edge) of
           Inl e \<Rightarrow> Inl e
         | Inr initial \<Rightarrow>
            (case node_xy G (fst (snd edge)) of
               Inl e \<Rightarrow> Inl e
             | Inr final \<Rightarrow> Inr (lonlats @ [initial] @ [final]))))"

text \<open>
  The row and the column of a point: \<^verbatim>\<open>int\<close> of the float quotient of the float difference.
  A float division by zero raises.
\<close>

definition rowcol :: "floats \<Rightarrow> radar \<Rightarrow> real \<times> real \<Rightarrow> error + int \<times> int" where
  "rowcol F self lonlat =
    (case lonlat of (lon, lat) \<Rightarrow>
       if dlat self = 0 \<or> dlon self = 0 then Inl ZeroDivisionError
       else Inr (py_int (fdiv F (fsub F lat (radar_lat0 self)) (dlat self)),
                 py_int (fdiv F (fsub F lon (radar_lon0 self)) (dlon self))))"

definition cell :: "int list list option \<Rightarrow> int \<times> int \<Rightarrow> error + int" where
  "cell matrix rc =
    (case matrix of
       None \<Rightarrow> Inl TypeError
     | Some A \<Rightarrow> (case py_index A (fst rc) of Inl e \<Rightarrow> Inl e | Inr line \<Rightarrow> py_index line (snd rc)))"

definition rain_at_edge :: "floats \<Rightarrow> radar \<Rightarrow> multidigraph \<Rightarrow> edge \<Rightarrow> agora \<Rightarrow> error + int" where
  "rain_at_edge F self G edge agora =
    (case edge_lonlats G edge of
       Inl e \<Rightarrow> Inl e
     | Inr lonlats \<Rightarrow>
        (case map_err (rowcol F self) lonlats of
           Inl e \<Rightarrow> Inl e
         | Inr rowcols \<Rightarrow>
            (let matrix = rain_by_time self agora in
             case map_err (cell matrix) rowcols of
               Inl e \<Rightarrow> Inl e
             | Inr rainfall \<Rightarrow> py_max rainfall)))"

text \<open>
  The sampling the spec describes, for comparison: the vertices of the geometry, or the
  two endpoints when there is no geometry, each in the cell given by \<open>floor\<close> of the
  quotient.
\<close>

definition spec_lonlats :: "multidigraph \<Rightarrow> edge \<Rightarrow> error + (real \<times> real) list" where
  "spec_lonlats G edge =
    (case edge_attrs G edge of
       Inl e \<Rightarrow> Inl e
     | Inr d \<Rightarrow>
        (case geometry d of
           Some coords \<Rightarrow> Inr coords
         | None \<Rightarrow>
            (case node_xy G (fst edge) of
               Inl e \<Rightarrow> Inl e
             | Inr initial \<Rightarrow>
                (case node_xy G (fst (snd edge)) of
                   Inl e \<Rightarrow> Inl e
                 | Inr final \<Rightarrow> Inr [initial, final]))))"

definition spec_rowcol :: "radar \<Rightarrow> real \<times> real \<Rightarrow> int \<times> int" where
  "spec_rowcol self lonlat =
    (\<lfloor>(snd lonlat - radar_lat0 self) / dlat self\<rfloor>, \<lfloor>(fst lonlat - radar_lon0 self) / dlon self\<rfloor>)"

definition spec_rain_at_edge :: "radar \<Rightarrow> multidigraph \<Rightarrow> edge \<Rightarrow> agora \<Rightarrow> error + int" where
  "spec_rain_at_edge self G edge agora =
    (case spec_lonlats G edge of
       Inl e \<Rightarrow> Inl e
     | Inr lonlats \<Rightarrow>
        (case map_err (cell (rain_by_time self agora)) (map (spec_rowcol self) lonlats) of
           Inl e \<Rightarrow> Inl e
         | Inr rainfall \<Rightarrow> py_max rainfall))"

subsection \<open>The oracle\<close>

text \<open>
  The \<^verbatim>\<open>while\<close> loop of \<^verbatim>\<open>oracle\<close>, with its variables \<open>tyme\<close>, \<open>n\<close>, \<open>next_node\<close> and
  \<open>crossed_edges\<close>; the travel time is subtracted from the budget in floats. When \<^verbatim>\<open>find_edge_by_nodes\<close> returns \<^verbatim>\<open>None\<close> the loop appends it and
  then reads \<^verbatim>\<open>grafo.graph.edges[None]\<close>, which raises.
\<close>

function oracle_loop ::
  "floats \<Rightarrow> grafo \<Rightarrow> node list \<Rightarrow> real \<Rightarrow> nat \<Rightarrow> node \<Rightarrow> edge list
     \<Rightarrow> error + node \<times> edge list" where
  "oracle_loop F grafo path tyme n next_node crossed_edges =
    (if tyme > 0 \<and> n < length path - 1 then
       (let current_node = path ! n; next_node = path ! (n + 1) in
        case find_edge_by_nodes grafo current_node next_node of
          None \<Rightarrow> Inl TypeError
        | Some e \<Rightarrow>
           (case edge_attrs (graph grafo) e of
              Inl err \<Rightarrow> Inl err
            | Inr d \<Rightarrow>
               oracle_loop F grafo path (fsub F tyme (travel_time d)) (n + 1) next_node
                 (crossed_edges @ [e])))
     else Inr (next_node, crossed_edges))"
  by pat_completeness auto
termination
  by (relation "measure (\<lambda>(F, grafo, path, tyme, n, next_node, crossed_edges). length path - n)")
    auto

declare oracle_loop.simps [simp del]

text \<open>\<^verbatim>\<open>oracle\<close>, with the float subtraction of \<open>F\<close>.\<close>

definition oracle_with ::
  "floats \<Rightarrow> grafo \<Rightarrow> node list \<Rightarrow> node \<Rightarrow> real \<Rightarrow> error + node \<times> edge list" where
  "oracle_with F grafo path initial_point tyme =
    (let initial_indices = filter (\<lambda>i. path ! i = initial_point) [0..<length path]
     in if length initial_indices = 0 then Inr (initial_point, [])
        else oracle_loop F grafo path tyme (hd initial_indices) initial_point [])"

text \<open>
  \<^verbatim>\<open>oracle\<close> where no subtraction of the walk is rounded, as when the budget and the travel
  times are whole numbers of seconds.
\<close>

definition oracle_fn :: "grafo \<Rightarrow> node list \<Rightarrow> node \<Rightarrow> real \<Rightarrow> error + node \<times> edge list" where
  "oracle_fn grafo path initial_point tyme = oracle_with exact grafo path initial_point tyme"

subsection \<open>The flood classifier\<close>

text \<open>
  The two nested \<^verbatim>\<open>for\<close> loops of \<^verbatim>\<open>is_flooded\<close> with the flag \<open>tf\<close>; \<^verbatim>\<open>break\<close> leaves
  the inner loop only. The great-circle distance in meters (\<^verbatim>\<open>geopy\<close>) is a parameter.
\<close>

type_synonym metric = "real \<times> real \<Rightarrow> real \<times> real \<Rightarrow> real"

fun flooded_inner :: "metric \<Rightarrow> real \<times> real \<Rightarrow> (real \<times> real) list \<Rightarrow> bool \<Rightarrow> bool" where
  "flooded_inner great_circle p [] tf = tf"
| "flooded_inner great_circle p (q # qs) tf =
    (if great_circle p q < 200 then True else flooded_inner great_circle p qs tf)"

fun flooded_outer :: "metric \<Rightarrow> (real \<times> real) list \<Rightarrow> (real \<times> real) list \<Rightarrow> bool \<Rightarrow> bool" where
  "flooded_outer great_circle [] flooded_points tf = tf"
| "flooded_outer great_circle (p # ps) flooded_points tf =
    flooded_outer great_circle ps flooded_points (flooded_inner great_circle p flooded_points tf)"

definition is_flooded :: "metric \<Rightarrow> multidigraph \<Rightarrow> edge \<Rightarrow> (real \<times> real) list \<Rightarrow> error + bool" where
  "is_flooded great_circle G edge flooded_points =
    (case edge_lonlats G edge of
       Inl e \<Rightarrow> Inl e
     | Inr lonlats \<Rightarrow>
        (let latlons = map (\<lambda>(x, y). (y, x)) lonlats
         in Inr (flooded_outer great_circle latlons flooded_points False)))"


subsection \<open>The simulation: class \<^verbatim>\<open>Experiment\<close>\<close>

text \<open>
  \<^verbatim>\<open>Experiment.experiment\<close> mutates objects that its caller still holds, so the objects
  live in a store and are named by references. \<open>next_agora\<close> is the first address at which
  no \<^verbatim>\<open>Agora\<close> object has been allocated yet. A \<^verbatim>\<open>Grafo\<close> object holds its graph; the
  local variable \<^verbatim>\<open>graph\<close> of \<^verbatim>\<open>experiment\<close> is bound to the graph that \<^verbatim>\<open>crop\<close> has just
  stored in \<^verbatim>\<open>self.grafo.graph\<close>, and neither name is bound again, so both stand for the
  graph of the \<^verbatim>\<open>Grafo\<close> object in the store.
\<close>

type_synonym ref = nat

record Experiment =
  origin :: node
  destination :: node
  agora :: ref
  grafo :: ref
  radar :: radar

record store =
  experiments :: "ref \<Rightarrow> Experiment"
  agoras :: "ref \<Rightarrow> agora"
  next_agora :: ref
  grafos :: "ref \<Rightarrow> grafo"

text \<open>What the run reads from outside: the flood spreadsheet, the coordinate transformer
  and the path search; and the float operations it computes with.\<close>

record world =
  arith :: floats
  flood_df :: "flood_row list"
  transform :: "real \<Rightarrow> real \<Rightarrow> real \<times> real"
  astar_path :: planner

text \<open>The weight function that the caller passes to \<^verbatim>\<open>experiment\<close>; the variable
  is \<open>weigh\<close> here, as \<open>weight\<close> already names the edge attribute.\<close>

type_synonym weight_fn = "multidigraph \<Rightarrow> edge \<Rightarrow> (real \<times> real) list \<Rightarrow> (edge \<times> int) list \<Rightarrow> real"

text \<open>\<^verbatim>\<open>nx.set_edge_attributes(graph, weights, 'weight')\<close>.\<close>

definition set_edge_attributes :: "multidigraph \<Rightarrow> (edge \<times> real) list \<Rightarrow> multidigraph" where
  "set_edge_attributes G weights =
    G\<lparr>edges := map (\<lambda>(e, d). case map_of weights e of
                                None \<Rightarrow> (e, d)
                              | Some w \<Rightarrow> (e, d\<lparr>weight := Some w\<rparr>)) (edges G)\<rparr>"

text \<open>
  The \<^verbatim>\<open>if\<close>/\<^verbatim>\<open>else\<close> of the main loop: it yields the dictionary \<open>rains\<close> and, when the
  radar has a grid for \<open>time\<close>, stores the new weights in the graph.
\<close>

definition update_weights ::
  "floats \<Rightarrow> weight_fn \<Rightarrow> ref \<Rightarrow> ref \<Rightarrow> (real \<times> real) list \<Rightarrow> store
     \<Rightarrow> error + store \<times> (edge \<times> int) list" where
  "update_weights F weigh self time flooding_points h =
    (let me = experiments h self; G = graph (grafos h (grafo me)) in
     if (case rain_by_time (radar me) (agoras h time) of None \<Rightarrow> False | Some A \<Rightarrow> A \<noteq> []) then
       (case map_err (\<lambda>e. map_sum id (Pair e) (rain_at_edge F (radar me) G e (agoras h time)))
               (map fst (edges G)) of
          Inl err \<Rightarrow> Inl err
        | Inr rains \<Rightarrow>
           (let weights = map (\<lambda>e. (e, weigh G e flooding_points rains)) (map fst (edges G))
            in Inr (h\<lparr>grafos := (grafos h)(grafo me :=
                        (grafos h (grafo me))\<lparr>graph := set_edge_attributes G weights\<rparr>)\<rparr>, rains)))
     else Inr (h, map (\<lambda>e. (e, 0)) (map fst (edges G))))"

text \<open>\<^verbatim>\<open>for e in subpath: edge_rains[e] = rains[e]\<close>, on insertion-ordered dictionaries.\<close>

fun save_rains :: "(edge \<times> int) list \<Rightarrow> edge list \<Rightarrow> (edge \<times> int) list \<Rightarrow> error + (edge \<times> int) list" where
  "save_rains rains [] edge_rains = Inr edge_rains"
| "save_rains rains (e # subpath) edge_rains =
    (case map_of rains e of
       None \<Rightarrow> Inl KeyError
     | Some v \<Rightarrow> save_rains rains subpath (AList.update e v edge_rains))"

text \<open>One turn of the main loop, on the store and the variables \<open>start\<close> and \<open>edge_rains\<close>.\<close>

definition iteration ::
  "world \<Rightarrow> weight_fn \<Rightarrow> ref \<Rightarrow> ref \<Rightarrow> store \<times> node \<times> (edge \<times> int) list
     \<Rightarrow> error + store \<times> node \<times> (edge \<times> int) list" where
  "iteration W weigh self time s =
    (case s of (h, start, edge_rains) \<Rightarrow>
      (let flooding_points = get_flooding_points (transform W) (flood_df W) (agoras h time) in
       case update_weights (arith W) weigh self time flooding_points h of
         Inl err \<Rightarrow> Inl err
       | Inr (h1, rains) \<Rightarrow>
          (let me = experiments h1 self in
           case astar_path W (graph (grafos h1 (grafo me))) start (destination me) ''weight'' of
             Inl err \<Rightarrow> Inl err
           | Inr shortest_path \<Rightarrow>
              (let h2 = h1\<lparr>agoras := (agoras h1)(time := step (agoras h1 time) 600)\<rparr> in
               case py_index shortest_path 0 of
                 Inl err \<Rightarrow> Inl err
               | Inr first \<Rightarrow>
                  (case oracle_with (arith W) (grafos h2 (grafo me)) shortest_path first 600 of
                     Inl err \<Rightarrow> Inl err
                   | Inr (next_start, subpath) \<Rightarrow>
                      (case save_rains rains subpath edge_rains of
                         Inl err \<Rightarrow> Inl err
                       | Inr edge_rains' \<Rightarrow> Inr (h2, next_start, edge_rains')))))))"

text \<open>
  The main loop has no bound on its turns: \<open>fuel\<close> counts them, and \<open>None\<close> says that the
  fuel ran out before \<open>start\<close> was the destination.
\<close>

fun main_loop ::
  "nat \<Rightarrow> world \<Rightarrow> weight_fn \<Rightarrow> ref \<Rightarrow> ref \<Rightarrow> store \<times> node \<times> (edge \<times> int) list
     \<Rightarrow> (error + store \<times> (edge \<times> int) list) option" where
  "main_loop 0 W weigh self time (h, start, edge_rains) =
    (if start \<noteq> destination (experiments h self) then None else Some (Inr (h, edge_rains)))"
| "main_loop (Suc fuel) W weigh self time (h, start, edge_rains) =
    (if start \<noteq> destination (experiments h self) then
       (case iteration W weigh self time (h, start, edge_rains) of
          Inl err \<Rightarrow> Some (Inl err)
        | Inr s \<Rightarrow> main_loop fuel W weigh self time s)
     else Some (Inr (h, edge_rains)))"

text \<open>\<^verbatim>\<open>copy.deepcopy(self.agora)\<close> allocates a new \<^verbatim>\<open>Agora\<close> object with the same fields.\<close>

definition experiment_fn ::
  "nat \<Rightarrow> world \<Rightarrow> weight_fn \<Rightarrow> ref \<Rightarrow> store \<Rightarrow> (error + store \<times> (edge \<times> int) list) option" where
  "experiment_fn fuel W weigh self h =
    (let me = experiments h self;
         start = origin me;
         time = next_agora h;
         h1 = h\<lparr>agoras := (agoras h)(time := agoras h (agora me)), next_agora := Suc time\<rparr>
     in case crop (arith W) (astar_path W) (grafos h1 (grafo me)) (origin me) (destination me) of
          Inl err \<Rightarrow> Some (Inl err)
        | Inr cropped \<Rightarrow>
           main_loop fuel W weigh self time
             (h1\<lparr>grafos := (grafos h1)(grafo me := cropped)\<rparr>, start, []))"

subsection \<open>Notions for stating the properties of the oracle\<close>

text \<open>
  The edges that \<^verbatim>\<open>find_edge_by_nodes\<close> gives for the consecutive pairs of a path, from
  position \<open>i\<close> up to position \<open>k\<close>, in path order; and the travel time of an edge.
\<close>

definition path_edges :: "grafo \<Rightarrow> node list \<Rightarrow> nat \<Rightarrow> nat \<Rightarrow> edge list" where
  "path_edges G path i k =
     List.map_filter (\<lambda>j. find_edge_by_nodes G (path ! j) (path ! Suc j)) [i..<k]"

definition edge_time :: "grafo \<Rightarrow> edge \<Rightarrow> real" where
  "edge_time G e = (case edge_attrs (graph G) e of Inl err \<Rightarrow> 0 | Inr d \<Rightarrow> travel_time d)"

text \<open>
  The budget that is left on arrival at position \<open>j\<close> of a walk that begins at position
  \<open>i\<close> with the budget \<open>tyme\<close>: the travel times of the edges in between are subtracted
  one after the other, in floats.
\<close>

definition budget_left :: "floats \<Rightarrow> grafo \<Rightarrow> node list \<Rightarrow> real \<Rightarrow> nat \<Rightarrow> nat \<Rightarrow> real" where
  "budget_left F G path tyme i j = foldl (fsub F) tyme (map (edge_time G) (path_edges G path i j))"

text \<open>
  The difference of two whole numbers between 0 and \<open>2\<^sup>5\<^sup>3\<close> is a float, so a float
  subtraction does not round it; binary64 arithmetic has this property.
\<close>

definition whole_exact :: "floats \<Rightarrow> bool" where
  "whole_exact F \<longleftrightarrow>
     (\<forall>a b. a \<in> \<int> \<and> b \<in> \<int> \<and> 0 \<le> a \<and> a \<le> 2 ^ 53 \<and> 0 \<le> b \<and> b \<le> 2 ^ 53 \<longrightarrow> fsub F a b = a - b)"

text \<open>Example networks: three nodes in a row, the two edges taking 300s and 400s, or 300s
  and no time at all.\<close>

definition road :: "real \<Rightarrow> edge_data" where
  "road t = \<lparr>travel_time = t, geometry = None, weight = None\<rparr>"

definition example_grafo :: grafo where
  "example_grafo =
    \<lparr>lat0 = 0, latoo = 10, lon0 = 0, lonoo = 10,
     graph = \<lparr>nodes = [1 \<mapsto> (1, 1), 2 \<mapsto> (2, 2), 3 \<mapsto> (3, 3)],
              edges = [((1, 2, 0), road 300), ((2, 3, 0), road 400)]\<rparr>\<rparr>"

definition zero_time_grafo :: grafo where
  "zero_time_grafo =
    \<lparr>lat0 = 0, latoo = 10, lon0 = 0, lonoo = 10,
     graph = \<lparr>nodes = [1 \<mapsto> (1, 1), 2 \<mapsto> (2, 2), 3 \<mapsto> (3, 3)],
              edges = [((1, 2, 0), road 300), ((2, 3, 0), road 0)]\<rparr>\<rparr>"

subsection \<open>Notions for stating the properties of the classifier and of the radar\<close>

text \<open>
  A metric for the examples, in place of the great-circle distance: a thousand times the sum of
  the coordinate differences. The two radars have a grid of two rows and one column (or no
  grid at all); the two networks have one edge each, the first with an endpoint south of the
  origin of the grid, the second with a geometry vertex in another cell than its endpoints.
\<close>

definition grid_metric :: metric where
  "grid_metric p q = 1000 * (\<bar>fst p - fst q\<bar> + \<bar>snd p - snd q\<bar>)"

definition example_radar :: radar where
  "example_radar =
    \<lparr>radar_lat0 = 0, radar_lon0 = 0, dlat = 1, dlon = 1, radar_data = (\<lambda>key. Some [[5], [7]])\<rparr>"

definition silent_radar :: radar where
  "silent_radar =
    \<lparr>radar_lat0 = 0, radar_lon0 = 0, dlat = 1, dlon = 1, radar_data = (\<lambda>key. None)\<rparr>"

definition south_graph :: multidigraph where
  "south_graph =
    \<lparr>nodes = [1 \<mapsto> (1 / 2, - 1 / 2), 2 \<mapsto> (1 / 2, 1 / 2)],
     edges = [((1, 2, 0), road 60)]\<rparr>"

definition bend_graph :: multidigraph where
  "bend_graph =
    \<lparr>nodes = [1 \<mapsto> (1 / 2, 3 / 2), 2 \<mapsto> (1 / 2, 3 / 2)],
     edges = [((1, 2, 0), \<lparr>travel_time = 60, geometry = Some [(1 / 2, 1 / 2)], weight = None\<rparr>)]\<rparr>"

definition noon :: agora where
  "noon = \<lparr>year = 2019, month = 2, day = 10, hour = 12, minute = 0, second = 0\<rparr>"

text \<open>The cell of a sampled point, as the code computes it.\<close>

definition row_of :: "floats \<Rightarrow> radar \<Rightarrow> real \<times> real \<Rightarrow> int" where
  "row_of F R p = py_int (fdiv F (fsub F (snd p) (radar_lat0 R)) (dlat R))"

definition col_of :: "floats \<Rightarrow> radar \<Rightarrow> real \<times> real \<Rightarrow> int" where
  "col_of F R p = py_int (fdiv F (fsub F (fst p) (radar_lon0 R)) (dlon R))"

subsection \<open>Notions for stating the properties of the flood reports\<close>

text \<open>
  A time of day is a triple of hour, minute and second; the sheet writes it as
  \<^verbatim>\<open>HH:MM:SS\<close>, as \<^verbatim>\<open>get_flooding_points\<close> writes the time of its timestamp. A report is a
  row of the sheet with its two times not yet written out. The example transformer only
  swaps its arguments.
\<close>

definition time_of_day :: "int \<times> int \<times> int \<Rightarrow> string" where
  "time_of_day hms =
    (case hms of (h, m, s) \<Rightarrow> format_0d 2 h @ '':'' @ format_0d 2 m @ '':'' @ format_0d 2 s)"

definition seconds_of_day :: "int \<times> int \<times> int \<Rightarrow> int" where
  "seconds_of_day hms = (case hms of (h, m, s) \<Rightarrow> 3600 * h + 60 * m + s)"

definition in_day :: "int \<times> int \<times> int \<Rightarrow> bool" where
  "in_day hms \<longleftrightarrow>
    (case hms of (h, m, s) \<Rightarrow> 0 \<le> h \<and> h < 24 \<and> 0 \<le> m \<and> m < 60 \<and> 0 \<le> s \<and> s < 60)"

definition date_label :: "agora \<Rightarrow> string" where
  "date_label t = format_0d 4 (year t) @ ''-'' @ format_0d 2 (month t) @ ''-'' @ format_0d 2 (day t)"

definition now :: "agora \<Rightarrow> int \<times> int \<times> int" where
  "now t = (hour t, minute t, second t)"

record report =
  on_date :: string
  from_time :: "int \<times> int \<times> int"
  to_time :: "int \<times> int \<times> int"
  at_x :: real
  at_y :: real

definition sheet_row :: "report \<Rightarrow> flood_row" where
  "sheet_row r =
    \<lparr>DATE = on_date r, START_T = time_of_day (from_time r), END_T = time_of_day (to_time r),
     X = at_x r, Y = at_y r\<rparr>"

definition swap_axes :: "real \<Rightarrow> real \<Rightarrow> real \<times> real" where
  "swap_axes x y = (y, x)"

definition example_report :: report where
  "example_report =
    \<lparr>on_date = ''2019-02-10'', from_time = (10, 0, 0), to_time = (11, 0, 0), at_x = 1, at_y = 2\<rparr>"

subsection \<open>Notions for stating the properties of the crop and of the simulation\<close>

text \<open>
  A graph is a subgraph of another when its nodes, with their coordinates, and its edges,
  with their attributes, are among those of the other. The float operations round
  monotonically when a difference of \<open>a\<close> and a smaller \<open>b\<close> is not negative, and when
  subtracting (adding) a number that is not negative gives no more (no less) than one began
  with; binary64 arithmetic rounds so. A node is within the bounds of a \<^verbatim>\<open>Grafo\<close> when its
  coordinates lie in the box from which the \<^verbatim>\<open>Grafo\<close> was made.
\<close>

definition subgraph :: "multidigraph \<Rightarrow> multidigraph \<Rightarrow> bool" where
  "subgraph G' G \<longleftrightarrow>
     (\<forall>n p. nodes G' n = Some p \<longrightarrow> nodes G n = Some p) \<and> set (edges G') \<subseteq> set (edges G)"

definition rounds_monotone :: "floats \<Rightarrow> bool" where
  "rounds_monotone F \<longleftrightarrow>
     (\<forall>a b. b \<le> a \<longrightarrow> 0 \<le> fsub F a b)
     \<and> (\<forall>a d. 0 \<le> d \<longrightarrow> fsub F a d \<le> a \<and> a \<le> fadd F a d)"

definition within_bounds :: "grafo \<Rightarrow> node \<Rightarrow> bool" where
  "within_bounds self n \<longleftrightarrow>
     (case nodes (graph self) n of
        None \<Rightarrow> False
      | Some p \<Rightarrow> inside_bbox (latoo self) (lat0 self) (lonoo self) (lon0 self) p)"

definition far_grafo :: grafo where
  "far_grafo =
    \<lparr>lat0 = 0, latoo = 10, lon0 = 0, lonoo = 10,
     graph = \<lparr>nodes = [1 \<mapsto> (1, 1), 2 \<mapsto> (2, 2), 3 \<mapsto> (9, 9)],
              edges = [((1, 2, 0), road 300), ((2, 3, 0), road 400)]\<rparr>\<rparr>"

text \<open>
  Examples: a network whose third node is far from the other two; a path search that walks
  up the node numbers; a weight function that returns the rain on the edge; a radar with a
  single cell; the world and the store of a run from node 1 to node 3.
\<close>

definition direct_planner :: planner where
  "direct_planner G a b w = (if a \<le> b then Inr [a..b] else Inl NetworkXNoPath)"

definition flat_weight :: weight_fn where
  "flat_weight G e flooding_points rains =
    (case map_of rains e of None \<Rightarrow> 0 | Some v \<Rightarrow> real_of_int v)"

definition wide_radar :: radar where
  "wide_radar =
    \<lparr>radar_lat0 = 0, radar_lon0 = 0, dlat = 10, dlon = 10, radar_data = (\<lambda>key. Some [[5]])\<rparr>"

definition example_world :: world where
  "example_world =
    \<lparr>arith = exact, flood_df = [sheet_row example_report], transform = swap_axes,
     astar_path = direct_planner\<rparr>"

definition example_store :: "radar \<Rightarrow> store" where
  "example_store R =
    \<lparr>experiments = (\<lambda>r. \<lparr>origin = 1, destination = 3, agora = 0, grafo = 0, radar = R\<rparr>),
     agoras = (\<lambda>r. noon), next_agora = 1, grafos = (\<lambda>r. example_grafo)\<rparr>"

text \<open>
  Two \<^verbatim>\<open>Grafo\<close> objects are the same but for the weights when they have the same bounds and
  nodes, and the same edges in the same order with the same travel times and geometries.
  A store is in the frame of a run from another store when the run can have led from the
  one to the other: the experiments are as they were, no clock object but the copy of the
  run and no \<^verbatim>\<open>Grafo\<close> object but that of the experiment has changed, and that one is the
  same but for the weights. The last example is the store of a run from node 1 to node 2
  on the network with the far node.
\<close>

definition same_but_weights :: "grafo \<Rightarrow> grafo \<Rightarrow> bool" where
  "same_but_weights g g' \<longleftrightarrow>
     lat0 g = lat0 g' \<and> latoo g = latoo g' \<and> lon0 g = lon0 g' \<and> lonoo g = lonoo g'
     \<and> nodes (graph g) = nodes (graph g')
     \<and> map (\<lambda>ed. (fst ed, travel_time (snd ed), geometry (snd ed))) (edges (graph g))
         = map (\<lambda>ed. (fst ed, travel_time (snd ed), geometry (snd ed))) (edges (graph g'))"

definition run_frame :: "ref \<Rightarrow> ref \<Rightarrow> store \<Rightarrow> store \<Rightarrow> bool" where
  "run_frame self time h h' \<longleftrightarrow>
     experiments h' = experiments h \<and> next_agora h' = next_agora h
     \<and> (\<forall>r. r \<noteq> time \<longrightarrow> agoras h' r = agoras h r)
     \<and> (\<forall>r. r \<noteq> grafo (experiments h self) \<longrightarrow> grafos h' r = grafos h r)
     \<and> same_but_weights (grafos h' (grafo (experiments h self))) (grafos h (grafo (experiments h self)))"

definition far_store :: store where
  "far_store =
    \<lparr>experiments = (\<lambda>r. \<lparr>origin = 1, destination = 2, agora = 0, grafo = 0, radar = wide_radar\<rparr>),
     agoras = (\<lambda>r. noon), next_agora = 1, grafos = (\<lambda>r. far_grafo)\<rparr>"

section \<open>The clock\<close>

lemma sub_mod_div_60: "((x::int) - x mod 60) div 60 = x div 60"
  by (simp add: minus_mod_eq_mult_div)

lemma sub_mod_div_24: "((x::int) - x mod 24) div 24 = x div 24"
  by (simp add: minus_mod_eq_mult_div)

text \<open>Each field after a step, from the instant before it.\<close>

lemma step_fields:
  "second (step t a) = (seconds_in_month t + a) mod 60"
  "minute (step t a) = ((seconds_in_month t + a) div 60) mod 60"
  "hour (step t a) = ((seconds_in_month t + a) div 3600) mod 24"
  "day (step t a) = (seconds_in_month t + a) div 86400"
proof -
  define x where "x = second t + a"
  define y where "y = x div 60 + minute t"
  define z where "z = y div 60 + hour t"
  define k where "k = minute t + 60 * (hour t + 24 * day t)"
  define l where "l = hour t + 24 * day t"
  define T where "T = seconds_in_month t + a"
  have T: "T = x + 60 * k"
    by (simp add: T_def seconds_in_month_def x_def k_def)
  have s: "T mod 60 = x mod 60" unfolding T by simp
  have "T div 60 = x div 60 + k" unfolding T by simp
  then have d60: "T div 60 = y + 60 * l" by (simp add: y_def k_def l_def)
  have m: "T div 60 mod 60 = y mod 60" unfolding d60 by simp
  have "T div 3600 = T div 60 div 60"
    using zdiv_zmult2_eq [of 60 T 60] by simp
  also have "\<dots> = y div 60 + l" unfolding d60 by simp
  finally have d3600: "T div 3600 = z + 24 * day t" by (simp add: z_def l_def)
  have h: "T div 3600 mod 24 = z mod 24" unfolding d3600 by simp
  have "T div 86400 = T div 3600 div 24"
    using zdiv_zmult2_eq [of 24 T 3600] by simp
  also have "\<dots> = z div 24 + day t" unfolding d3600 by simp
  finally have d: "T div 86400 = day t + z div 24" by simp
  show "second (step t a) = (seconds_in_month t + a) mod 60"
    unfolding T_def [symmetric] s by (simp add: step_def Let_def x_def)
  show "minute (step t a) = ((seconds_in_month t + a) div 60) mod 60"
    unfolding T_def [symmetric] m by (simp add: step_def Let_def sub_mod_div_60 x_def y_def)
  show "hour (step t a) = ((seconds_in_month t + a) div 3600) mod 24"
    unfolding T_def [symmetric] h
    by (simp add: step_def Let_def sub_mod_div_60 x_def y_def z_def)
  show "day (step t a) = (seconds_in_month t + a) div 86400"
    unfolding T_def [symmetric] d
    by (simp add: step_def Let_def sub_mod_div_60 sub_mod_div_24 x_def y_def z_def)
qed

lemma step_frame: "year (step t a) = year t" "month (step t a) = month t"
  by (simp_all add: step_def Let_def)

text \<open>A step by \<open>a\<close> moves the instant by exactly \<open>a\<close> seconds.\<close>

lemma seconds_step: "seconds_in_month (step t a) = seconds_in_month t + a"
proof -
  define T where "T = seconds_in_month t + a"
  have 1: "T div 60 = T div 60 mod 60 + 60 * (T div 60 div 60)" by simp
  have 2: "T div 60 div 60 = T div 3600" using zdiv_zmult2_eq [of 60 T 60] by simp
  have 3: "T div 3600 div 24 = T div 86400" using zdiv_zmult2_eq [of 24 T 3600] by simp
  have 4: "T div 3600 = T div 3600 mod 24 + 24 * (T div 3600 div 24)" by simp
  have "T = T mod 60 + 60 * (T div 60)" by simp
  also have "\<dots> = T mod 60 + 60 * (T div 60 mod 60) + 3600 * (T div 3600)"
    using 1 2 by linarith
  also have "\<dots> = T mod 60 + 60 * (T div 60 mod 60) + 3600 * (T div 3600 mod 24)
      + 86400 * (T div 86400)"
    using 3 4 by linarith
  finally show ?thesis
    unfolding seconds_in_month_def [of "step t a"] step_fields T_def [symmetric] by simp
qed

lemma step_step: "step (step t a) b = step t (a + b)"
  by (rule agora.equality) (simp_all add: step_fields step_frame seconds_step add.assoc)

lemma step_normalized: "normalized (step t a)"
  by (simp add: normalized_def step_fields)

lemma step_zero: "normalized t \<Longrightarrow> step t 0 = t"
  by (rule agora.equality) (simp_all add: step_def Let_def normalized_def)

lemma step_zero_only: "step t 0 = t \<Longrightarrow> normalized t"
proof -
  assume a: "step t 0 = t"
  have s: "second (step t 0) = second t mod 60"
    and m: "minute (step t 0) = (second t div 60 + minute t) mod 60"
    and h: "hour (step t 0) = ((second t div 60 + minute t) div 60 + hour t) mod 24"
    by (simp_all add: step_def Let_def minus_mod_eq_mult_div)
  have s': "second t mod 60 = second t" using s a by simp
  have s0: "0 \<le> second t" using s' pos_mod_sign [of 60 "second t"] by linarith
  have s1: "second t < 60" using s' pos_mod_bound [of 60 "second t"] by linarith
  have sd: "second t div 60 = 0" using s0 s1 by simp
  have m': "minute t mod 60 = minute t" using m a sd by simp
  have m0: "0 \<le> minute t" using m' pos_mod_sign [of 60 "minute t"] by linarith
  have m1: "minute t < 60" using m' pos_mod_bound [of 60 "minute t"] by linarith
  have md: "minute t div 60 = 0" using m0 m1 by simp
  have h': "hour t mod 24 = hour t" using h a sd md by simp
  have h0: "0 \<le> hour t" using h' pos_mod_sign [of 24 "hour t"] by linarith
  have h1: "hour t < 24" using h' pos_mod_bound [of 24 "hour t"] by linarith
  from s0 s1 m0 m1 h0 h1 show ?thesis by (simp add: normalized_def)
qed

text \<open>
  C3, as amended. For all integers \<open>a\<close> and \<open>b\<close> (the non-negative ones among them) and
  every timestamp, \<open>step(a)\<close> followed by \<open>step(b)\<close> gives the state that \<open>step(a+b)\<close>
  gives. A step carries through the second, minute, hour and day boundaries: the instant
  moves by exactly \<open>a\<close> seconds, and the second, minute and hour come out reduced modulo
  60, 60 and 24. The year and the month never change. \<open>step(0)\<close> changes nothing of a
  timestamp whose second, minute and hour are in range, as those of every timestamp that
  \<open>step\<close> has produced are, and of no other timestamp.
\<close>

theorem step_additive:
  "step (step t a) b = step t (a + b)
   \<and> seconds_in_month (step t a) = seconds_in_month t + a
   \<and> second (step t a) = (seconds_in_month t + a) mod 60
   \<and> minute (step t a) = (seconds_in_month t + a) div 60 mod 60
   \<and> hour (step t a) = (seconds_in_month t + a) div 3600 mod 24
   \<and> day (step t a) = (seconds_in_month t + a) div 86400
   \<and> year (step t a) = year t \<and> month (step t a) = month t
   \<and> step (step t a) 0 = step t a
   \<and> (normalized t \<longrightarrow> step t 0 = t)
   \<and> (step t 0 = t \<longrightarrow> normalized t)"
proof (intro conjI impI)
  show "step (step t a) b = step t (a + b)" by (rule step_step)
  show "seconds_in_month (step t a) = seconds_in_month t + a" by (rule seconds_step)
  show "second (step t a) = (seconds_in_month t + a) mod 60" by (rule step_fields)
  show "minute (step t a) = (seconds_in_month t + a) div 60 mod 60" by (rule step_fields)
  show "hour (step t a) = (seconds_in_month t + a) div 3600 mod 24" by (rule step_fields)
  show "day (step t a) = (seconds_in_month t + a) div 86400" by (rule step_fields)
  show "year (step t a) = year t" by (rule step_frame)
  show "month (step t a) = month t" by (rule step_frame)
  show "step (step t a) 0 = step t a" using step_step [of t a 0] by simp
  show "step t 0 = t" if "normalized t" using that by (rule step_zero)
  show "normalized t" if "step t 0 = t" using that by (rule step_zero_only)
qed

theorem step_additive_witness:
  "normalized \<lparr>year = 2019, month = 2, day = 10, hour = 23, minute = 59, second = 59\<rparr>
   \<and> step (step \<lparr>year = 2019, month = 2, day = 10, hour = 23, minute = 59, second = 59\<rparr> 1) 3660
       = \<lparr>year = 2019, month = 2, day = 11, hour = 1, minute = 1, second = 0\<rparr>
   \<and> step \<lparr>year = 2019, month = 2, day = 10, hour = 23, minute = 59, second = 59\<rparr> 0
       = \<lparr>year = 2019, month = 2, day = 10, hour = 23, minute = 59, second = 59\<rparr>"
proof -
  let ?t = "\<lparr>year = 2019, month = 2, day = 10, hour = 23, minute = 59, second = 59\<rparr>"
  have n: "normalized ?t" by (simp add: normalized_def)
  have "step ?t (1 + 3660) = \<lparr>year = 2019, month = 2, day = 11, hour = 1, minute = 1, second = 0\<rparr>"
    by (simp add: step_def Let_def)
  moreover from step_additive [of ?t 1 3660]
  have "step (step ?t 1) 3660 = step ?t (1 + 3660)" and "normalized ?t \<longrightarrow> step ?t 0 = ?t"
    by blast+
  ultimately show ?thesis using n by simp
qed

text \<open>
  The claim as it was stated fails on a timestamp that the constructor accepts: with 75 in
  the field of the seconds, \<open>step(0)\<close> carries a minute.
\<close>

theorem step_additive_counterexample:
  "step \<lparr>year = 2019, month = 2, day = 10, hour = 12, minute = 0, second = 75\<rparr> 0
     = \<lparr>year = 2019, month = 2, day = 10, hour = 12, minute = 1, second = 15\<rparr>"
  by code_simp

section \<open>The oracle\<close>

lemma find_edge_in_graph:
  assumes "find_edge_by_nodes G a b = Some e"
  shows "e \<in> fst ` set (edges (graph G))"
proof -
  let ?es = "filter (\<lambda>e. fst e = a \<and> fst (snd e) = b) (map fst (edges (graph G)))
     @ filter (\<lambda>e. fst e = b \<and> fst (snd e) = a) (map fst (edges (graph G)))"
  from assms have ne: "?es \<noteq> []" and e: "e = hd ?es"
    by (auto simp: find_edge_by_nodes_def Let_def split: if_splits)
  from ne have "hd ?es \<in> set ?es" by (rule hd_in_set)
  with e show ?thesis by auto
qed

lemma find_edge_attrs:
  assumes "find_edge_by_nodes G a b = Some e"
  shows "\<exists>d. edge_attrs (graph G) e = Inr d"
proof -
  from find_edge_in_graph [OF assms] have "map_of (edges (graph G)) e \<noteq> None"
    by (simp add: map_of_eq_None_iff)
  then show ?thesis by (auto simp: edge_attrs_def)
qed

lemma path_edges_empty: "k \<le> i \<Longrightarrow> path_edges G path i k = []"
  by (simp add: path_edges_def List.map_filter_simps)

lemma path_edges_step:
  "i < k \<Longrightarrow> find_edge_by_nodes G (path ! i) (path ! Suc i) = Some e \<Longrightarrow>
     path_edges G path i k = e # path_edges G path (Suc i) k"
  by (simp add: path_edges_def upt_conv_Cons List.map_filter_simps)

lemma budget_left_start: "budget_left F G path tyme i i = tyme"
  by (simp add: budget_left_def path_edges_empty)

lemma budget_left_step:
  assumes "i < k" "find_edge_by_nodes G (path ! i) (path ! Suc i) = Some e"
    and "edge_attrs (graph G) e = Inr d"
  shows "budget_left F G path tyme i k = budget_left F G path (fsub F tyme (travel_time d)) (Suc i) k"
  using assms by (simp add: budget_left_def path_edges_step edge_time_def)

text \<open>
  The walk of the loop from position \<open>n\<close>: it stops at the first position at which the
  budget that is left is not positive, or at the last position of the path.
\<close>

lemma oracle_loop_walk:
  assumes "\<forall>j. n \<le> j \<and> j < length path - 1 \<longrightarrow>
      find_edge_by_nodes G (path ! j) (path ! Suc j) \<noteq> None"
  shows "\<exists>k. n \<le> k \<and> (n < length path \<longrightarrow> k < length path)
      \<and> (0 < tyme \<and> n < length path - 1 \<longrightarrow> n < k)
      \<and> (\<forall>j. n \<le> j \<and> j < k \<longrightarrow> 0 < budget_left F G path tyme n j)
      \<and> (k < length path - 1 \<longrightarrow> \<not> 0 < budget_left F G path tyme n k)
      \<and> oracle_loop F G path tyme n nn acc
          = Inr (if k = n then nn else path ! k, acc @ path_edges G path n k)"
  using assms
proof (induction F G path tyme n nn acc rule: oracle_loop.induct)
  case (1 F G path tyme n nn acc)
  show ?case
  proof (cases "0 < tyme \<and> n < length path - 1")
    case False
    then have "oracle_loop F G path tyme n nn acc = Inr (nn, acc)"
      by (subst oracle_loop.simps) auto
    with False show ?thesis
      by (intro exI [of _ n]) (auto simp: path_edges_empty budget_left_start)
  next
    case True
    with "1.prems" obtain e where e: "find_edge_by_nodes G (path ! n) (path ! Suc n) = Some e"
      by auto
    from find_edge_attrs [OF e] obtain d where d: "edge_attrs (graph G) e = Inr d" by auto
    have step: "oracle_loop F G path tyme n nn acc
        = oracle_loop F G path (fsub F tyme (travel_time d)) (n + 1) (path ! (n + 1)) (acc @ [e])"
      using True e d by (subst oracle_loop.simps) (simp add: Let_def)
    have a: "\<forall>j. n + 1 \<le> j \<and> j < length path - 1 \<longrightarrow>
        find_edge_by_nodes G (path ! j) (path ! Suc j) \<noteq> None"
      using "1.prems" by auto
    have e': "find_edge_by_nodes G (path ! n) (path ! (n + 1)) = Some e" using e by simp
    from "1.IH" [OF True refl refl e' d a]
    obtain k where k: "n + 1 \<le> k" "n + 1 < length path \<longrightarrow> k < length path"
      and pos: "\<forall>j. n + 1 \<le> j \<and> j < k \<longrightarrow>
          0 < budget_left F G path (fsub F tyme (travel_time d)) (n + 1) j"
      and stop: "k < length path - 1 \<longrightarrow>
          \<not> 0 < budget_left F G path (fsub F tyme (travel_time d)) (n + 1) k"
      and res: "oracle_loop F G path (fsub F tyme (travel_time d)) (n + 1) (path ! (n + 1)) (acc @ [e])
        = Inr (if k = n + 1 then path ! (n + 1) else path ! k,
               (acc @ [e]) @ path_edges G path (n + 1) k)"
      by blast
    have bl: "budget_left F G path tyme n j
        = budget_left F G path (fsub F tyme (travel_time d)) (n + 1) j" if "n < j" for j
      using budget_left_step [OF that e d] by simp
    have pos': "\<forall>j. n \<le> j \<and> j < k \<longrightarrow> 0 < budget_left F G path tyme n j"
    proof (intro allI impI)
      fix j assume j: "n \<le> j \<and> j < k"
      show "0 < budget_left F G path tyme n j"
      proof (cases "j = n")
        case True
        then show ?thesis using \<open>0 < tyme \<and> n < length path - 1\<close> by (simp add: budget_left_start)
      next
        case False
        with j have "n < j" "n + 1 \<le> j \<and> j < k" by auto
        then show ?thesis using pos bl by simp
      qed
    qed
    have stop': "k < length path - 1 \<longrightarrow> \<not> 0 < budget_left F G path tyme n k"
      using stop bl [of k] k by simp
    have "path_edges G path n k = e # path_edges G path (Suc n) k"
      using k e by (intro path_edges_step) auto
    with step res k True pos' stop' show ?thesis
      by (intro exI [of _ k]) auto
  qed
qed


lemma first_index:
  assumes "i0 < length path" "path ! i0 = start" "\<forall>j<i0. path ! j \<noteq> start"
  shows "filter (\<lambda>i. path ! i = start) [0..<length path]
     = i0 # filter (\<lambda>i. path ! i = start) [Suc i0..<length path]"
proof -
  have "[0..<length path] = [0..<i0] @ i0 # [Suc i0..<length path]"
    using assms(1) by (metis le_add1 less_imp_add_positive plus_nat.add_0 upt_add_eq_append upt_conv_Cons)
  moreover have "filter (\<lambda>i. path ! i = start) [0..<i0] = []"
    using assms(3) by (auto simp: filter_empty_conv)
  ultimately show ?thesis using assms(2) by simp
qed

lemma map_filter_all:
  "\<forall>x\<in>set xs. f x \<noteq> None \<Longrightarrow> List.map_filter f xs = map (\<lambda>x. the (f x)) xs"
  by (induction xs) (auto simp: List.map_filter_simps)

lemma path_edges_length:
  assumes "\<forall>j. i \<le> j \<and> j < k \<longrightarrow> find_edge_by_nodes G (path ! j) (path ! Suc j) \<noteq> None"
  shows "length (path_edges G path i k) = k - i"
  unfolding path_edges_def using assms by (subst map_filter_all) auto

lemma path_edges_take:
  assumes "\<forall>j. i \<le> j \<and> j < k \<longrightarrow> find_edge_by_nodes G (path ! j) (path ! Suc j) \<noteq> None"
    and "i \<le> j" "j \<le> k"
  shows "path_edges G path i j = take (j - i) (path_edges G path i k)"
proof -
  have 1: "path_edges G path i k
      = map (\<lambda>j. the (find_edge_by_nodes G (path ! j) (path ! Suc j))) [i..<k]"
    unfolding path_edges_def using assms(1) by (intro map_filter_all) auto
  have 2: "path_edges G path i j
      = map (\<lambda>j. the (find_edge_by_nodes G (path ! j) (path ! Suc j))) [i..<j]"
    unfolding path_edges_def using assms by (intro map_filter_all) auto
  have "take (j - i) [i..<k] = [i..<j]"
    using assms(2,3) by (simp add: take_upt)
  then show ?thesis unfolding 1 2 by (simp add: take_map)
qed

lemma oracle_start_missing:
  assumes "start \<notin> set path"
  shows "oracle_with F G path start tyme = Inr (start, [])"
proof -
  have "filter (\<lambda>i. path ! i = start) [0..<length path] = []"
    using assms by (auto simp: filter_empty_conv)
  then show ?thesis by (simp add: oracle_with_def)
qed

lemma oracle_from_first:
  assumes "i0 < length path" "path ! i0 = start" "\<forall>j<i0. path ! j \<noteq> start"
  shows "oracle_with F G path start tyme = oracle_loop F G path tyme i0 start []"
  using first_index [OF assms] by (simp add: oracle_with_def)

text \<open>Subtracting whole numbers one after the other, while the budget stays positive.\<close>

lemma sum_list_Ints: "\<forall>t\<in>set ts. t \<in> \<int> \<Longrightarrow> sum_list ts \<in> (\<int> :: real set)"
  by (induction ts) auto

lemma sum_list_take_le:
  assumes "\<forall>t\<in>set ts. (0::real) \<le> t"
  shows "sum_list (take m ts) \<le> sum_list ts"
proof -
  have "sum_list ts = sum_list (take m ts) + sum_list (drop m ts)"
    by (metis append_take_drop_id sum_list_append)
  moreover have "0 \<le> sum_list (drop m ts)"
    using assms by (intro sum_list_nonneg) (auto dest: in_set_dropD)
  ultimately show ?thesis by simp
qed

lemma foldl_exact:
  assumes F: "whole_exact F" and t: "tyme \<in> \<int>" "0 < tyme" "tyme \<le> 2 ^ 53"
    and ts: "\<forall>t\<in>set ts. t \<in> \<int> \<and> 0 \<le> t \<and> t \<le> 2 ^ 53"
    and pos: "\<forall>m<length ts. 0 < foldl (fsub F) tyme (take m ts)"
  shows "foldl (fsub F) tyme ts = tyme - sum_list ts"
  using ts pos
proof (induction ts rule: rev_induct)
  case Nil
  show ?case by simp
next
  case (snoc x xs)
  have xs: "\<forall>t\<in>set xs. t \<in> \<int> \<and> 0 \<le> t \<and> t \<le> 2 ^ 53" using snoc.prems(1) by simp
  have x: "x \<in> \<int>" "0 \<le> x" "x \<le> 2 ^ 53" using snoc.prems(1) by simp_all
  have p: "\<forall>m<length xs. 0 < foldl (fsub F) tyme (take m xs)"
  proof (intro allI impI)
    fix m assume "m < length xs"
    with snoc.prems(2) [rule_format, of m] show "0 < foldl (fsub F) tyme (take m xs)" by simp
  qed
  have b: "foldl (fsub F) tyme xs = tyme - sum_list xs" by (rule snoc.IH [OF xs p])
  have "0 < foldl (fsub F) tyme xs"
    using snoc.prems(2) [rule_format, of "length xs"] by simp
  then have b0: "0 < tyme - sum_list xs" using b by simp
  have "0 \<le> sum_list xs" using xs by (intro sum_list_nonneg) auto
  then have b1: "tyme - sum_list xs \<le> 2 ^ 53" using t(3) by linarith
  have "sum_list xs \<in> \<int>" using xs by (intro sum_list_Ints) auto
  then have b2: "tyme - sum_list xs \<in> \<int>" using t(1) by (rule Ints_diff [rotated])
  have "fsub F (tyme - sum_list xs) x = tyme - sum_list xs - x"
    using F b0 b1 b2 x unfolding whole_exact_def by (simp add: less_imp_le)
  then show ?case using b by simp
qed

lemma positive_prefixes:
  assumes F: "whole_exact F" and t: "tyme \<in> \<int>" "0 < tyme" "tyme \<le> 2 ^ 53"
    and ts: "\<forall>t\<in>set ts. t \<in> \<int> \<and> 0 \<le> t \<and> t \<le> 2 ^ 53"
  shows "(\<forall>m<length ts. 0 < foldl (fsub F) tyme (take m ts)) \<longleftrightarrow> sum_list (butlast ts) < tyme"
proof
  assume pos: "\<forall>m<length ts. 0 < foldl (fsub F) tyme (take m ts)"
  show "sum_list (butlast ts) < tyme"
  proof (cases "ts = []")
    case True
    then show ?thesis using t(2) by simp
  next
    case False
    have bs: "\<forall>t\<in>set (butlast ts). t \<in> \<int> \<and> 0 \<le> t \<and> t \<le> 2 ^ 53"
      using ts by (auto dest: in_set_butlastD)
    have bp: "\<forall>m<length (butlast ts). 0 < foldl (fsub F) tyme (take m (butlast ts))"
    proof (intro allI impI)
      fix m assume m: "m < length (butlast ts)"
      then have "take m (butlast ts) = take m ts" by (simp add: take_butlast)
      moreover have "m < length ts" using m by simp
      ultimately show "0 < foldl (fsub F) tyme (take m (butlast ts))" using pos by simp
    qed
    have "foldl (fsub F) tyme (butlast ts) = tyme - sum_list (butlast ts)"
      by (rule foldl_exact [OF F t bs bp])
    moreover have "0 < foldl (fsub F) tyme (take (length ts - 1) ts)"
      using pos False by simp
    moreover have "take (length ts - 1) ts = butlast ts" by (simp add: butlast_conv_take)
    ultimately show ?thesis by simp
  qed
next
  assume s: "sum_list (butlast ts) < tyme"
  have "m < length ts \<longrightarrow> 0 < foldl (fsub F) tyme (take m ts)" for m
  proof (induction m rule: less_induct)
    case (less m)
    show ?case
    proof
      assume m: "m < length ts"
      have tm: "\<forall>t\<in>set (take m ts). t \<in> \<int> \<and> 0 \<le> t \<and> t \<le> 2 ^ 53"
        using ts by (auto dest: in_set_takeD)
      have tp: "\<forall>m'<length (take m ts). 0 < foldl (fsub F) tyme (take m' (take m ts))"
      proof (intro allI impI)
        fix m' assume m': "m' < length (take m ts)"
        then have lt: "m' < m" "m' < length ts" using m by simp_all
        then have "take m' (take m ts) = take m' ts" by (simp add: min_def)
        with lt show "0 < foldl (fsub F) tyme (take m' (take m ts))" using less.IH by simp
      qed
      have eq: "foldl (fsub F) tyme (take m ts) = tyme - sum_list (take m ts)"
        by (rule foldl_exact [OF F t tm tp])
      have "take m ts = take m (butlast ts)" using m by (simp add: take_butlast)
      moreover have "sum_list (take m (butlast ts)) \<le> sum_list (butlast ts)"
        using ts by (intro sum_list_take_le) (auto dest: in_set_butlastD)
      ultimately have "sum_list (take m ts) < tyme" using s by simp
      then show "0 < foldl (fsub F) tyme (take m ts)" using eq by simp
    qed
  qed
  then show "\<forall>m<length ts. 0 < foldl (fsub F) tyme (take m ts)" by blast
qed

text \<open>
  C1. On a path \<open>a, b, c\<close> whose two edges take 300s and 400s, from \<open>a\<close> and with a budget
  of 600s, the oracle reaches \<open>c\<close> and has crossed the two edges in order: the budget is
  checked between edges only, so the second edge is crossed although it takes more than
  the 300s that are left.
\<close>

theorem oracle_overshoot:
  assumes "find_edge_by_nodes G a b = Some e1" "edge_attrs (graph G) e1 = Inr d1"
    and "travel_time d1 = 300"
    and "find_edge_by_nodes G b c = Some e2" "edge_attrs (graph G) e2 = Inr d2"
    and "travel_time d2 = 400"
  shows "oracle_fn G [a, b, c] a 600 = Inr (c, [e1, e2])"
proof -
  have "oracle_fn G [a, b, c] a 600 = oracle_loop exact G [a, b, c] 600 0 a []"
    unfolding oracle_fn_def by (rule oracle_from_first) simp_all
  also have "\<dots> = oracle_loop exact G [a, b, c] 300 (Suc 0) b [e1]"
    using assms by (subst oracle_loop.simps) (simp add: Let_def exact_def)
  also have "\<dots> = oracle_loop exact G [a, b, c] (- 100) (Suc (Suc 0)) c [e1, e2]"
    using assms by (subst oracle_loop.simps) (simp add: Let_def exact_def)
  also have "\<dots> = Inr (c, [e1, e2])"
    by (subst oracle_loop.simps) simp
  finally show ?thesis .
qed

theorem oracle_overshoot_witness:
  "find_edge_by_nodes example_grafo 1 2 = Some (1, 2, 0)
   \<and> edge_attrs (graph example_grafo) (1, 2, 0) = Inr (road 300)
   \<and> find_edge_by_nodes example_grafo 2 3 = Some (2, 3, 0)
   \<and> edge_attrs (graph example_grafo) (2, 3, 0) = Inr (road 400)
   \<and> oracle_fn example_grafo [1, 2, 3] 1 600 = Inr (3, [(1, 2, 0), (2, 3, 0)])"
proof -
  have 1: "find_edge_by_nodes example_grafo 1 2 = Some (1, 2, 0)"
    by (simp add: find_edge_by_nodes_def example_grafo_def)
  have 2: "edge_attrs (graph example_grafo) (1, 2, 0) = Inr (road 300)"
    by (simp add: edge_attrs_def example_grafo_def)
  have 3: "find_edge_by_nodes example_grafo 2 3 = Some (2, 3, 0)"
    by (simp add: find_edge_by_nodes_def example_grafo_def)
  have 4: "edge_attrs (graph example_grafo) (2, 3, 0) = Inr (road 400)"
    by (simp add: edge_attrs_def example_grafo_def)
  have 5: "travel_time (road 300) = 300" "travel_time (road 400) = 400"
    by (simp_all add: road_def)
  from oracle_overshoot [OF 1 2 5(1) 3 4 5(2)] 1 2 3 4 show ?thesis by simp
qed

text \<open>
  C2, as amended. Let the start node first occur in the path at position \<open>i0\<close>, before the
  last position, let the budget be positive, and let every consecutive pair of the path
  from \<open>i0\<close> on be linked by an edge of the network. Then, whatever the rounding of the
  float subtraction, the oracle returns the node at a position \<open>k > i0\<close> and the
  \<open>k - i0 \<ge> 1\<close> edges of the pairs from \<open>i0\<close> to \<open>k\<close>, in path order. It returns the last
  node with the \<open>n - 1 - i0\<close> edges of all the pairs from \<open>i0\<close> on exactly when the budget
  that is left, as the loop computes it, is positive on arrival at every position before
  the last. When the budget and the travel times of the remaining edges are whole numbers
  between 0 and \<open>2\<^sup>5\<^sup>3\<close>, which the subtraction does not round, that is exactly when the
  budget exceeds the total travel time of the remaining edges but the last one; so it is the
  case when the budget exceeds the total of all of them, or equals it with a last edge
  that takes time.
\<close>

theorem oracle_progress:
  assumes "i0 < length path - 1" "path ! i0 = start" "\<forall>j<i0. path ! j \<noteq> start"
    and "0 < tyme"
    and "\<forall>j. i0 \<le> j \<and> j < length path - 1 \<longrightarrow>
           find_edge_by_nodes G (path ! j) (path ! Suc j) \<noteq> None"
  shows "(\<exists>k. i0 < k \<and> k < length path
            \<and> oracle_with F G path start tyme = Inr (path ! k, path_edges G path i0 k)
            \<and> length (path_edges G path i0 k) = k - i0)
       \<and> (oracle_with F G path start tyme
              = Inr (last path, path_edges G path i0 (length path - 1))
            \<longleftrightarrow> (\<forall>j. i0 \<le> j \<and> j < length path - 1 \<longrightarrow> 0 < budget_left F G path tyme i0 j))
       \<and> length (path_edges G path i0 (length path - 1)) = length path - 1 - i0
       \<and> (whole_exact F \<and> tyme \<in> \<int> \<and> tyme \<le> 2 ^ 53
            \<and> (\<forall>e\<in>set (path_edges G path i0 (length path - 1)).
                  edge_time G e \<in> \<int> \<and> 0 \<le> edge_time G e \<and> edge_time G e \<le> 2 ^ 53)
          \<longrightarrow> (oracle_with F G path start tyme
                  = Inr (last path, path_edges G path i0 (length path - 1))
                \<longleftrightarrow> sum_list (map (edge_time G) (path_edges G path i0 (length path - 2))) < tyme))"
proof -
  let ?n = "length path - 1"
  let ?es = "path_edges G path i0 ?n"
  let ?ts = "map (edge_time G) ?es"
  let ?full = "oracle_with F G path start tyme = Inr (last path, ?es)"
  let ?pos = "\<forall>j. i0 \<le> j \<and> j < ?n \<longrightarrow> 0 < budget_left F G path tyme i0 j"
  have i0: "i0 < length path" using assms(1) by simp
  have start: "oracle_with F G path start tyme = oracle_loop F G path tyme i0 start []"
    by (rule oracle_from_first [OF i0 assms(2,3)])
  from oracle_loop_walk [OF assms(5), of tyme F start "[]"] i0 assms(1,4)
  obtain k where k: "i0 < k" "k < length path"
    and pos: "\<forall>j. i0 \<le> j \<and> j < k \<longrightarrow> 0 < budget_left F G path tyme i0 j"
    and stop: "k < ?n \<longrightarrow> \<not> 0 < budget_left F G path tyme i0 k"
    and res: "oracle_loop F G path tyme i0 start [] = Inr (path ! k, path_edges G path i0 k)"
    by auto
  have "\<forall>j. i0 \<le> j \<and> j < k \<longrightarrow> find_edge_by_nodes G (path ! j) (path ! Suc j) \<noteq> None"
    using assms(5) k by auto
  then have len: "length (path_edges G path i0 k) = k - i0"
    by (rule path_edges_length)
  have first: "\<exists>k. i0 < k \<and> k < length path
      \<and> oracle_with F G path start tyme = Inr (path ! k, path_edges G path i0 k)
      \<and> length (path_edges G path i0 k) = k - i0"
    using k res len start by auto
  have ne: "path \<noteq> []" using i0 by auto
  have lst: "path ! ?n = last path" using ne by (simp add: last_conv_nth)
  have len_all: "length ?es = ?n - i0"
    using assms(5) by (intro path_edges_length) auto
  have second: "?full \<longleftrightarrow> ?pos"
  proof
    assume ?full
    with start res have "path_edges G path i0 k = ?es" by simp
    then have "k - i0 = ?n - i0" using len len_all by simp
    with k assms(1) have "k = ?n" by linarith
    with pos show ?pos by simp
  next
    assume p: ?pos
    have "\<not> k < ?n"
    proof
      assume "k < ?n"
      with stop p k show False by auto
    qed
    with k have "k = ?n" by linarith
    with start res lst show ?full by simp
  qed
  have fourth: "?full \<longleftrightarrow> sum_list (map (edge_time G) (path_edges G path i0 (length path - 2))) < tyme"
    if F: "whole_exact F" and t: "tyme \<in> \<int>" "tyme \<le> 2 ^ 53"
      and ts: "\<forall>e\<in>set ?es. edge_time G e \<in> \<int> \<and> 0 \<le> edge_time G e \<and> edge_time G e \<le> 2 ^ 53"
  proof -
    have ts': "\<forall>t\<in>set ?ts. t \<in> \<int> \<and> 0 \<le> t \<and> t \<le> 2 ^ 53" using ts by auto
    have bl: "budget_left F G path tyme i0 j = foldl (fsub F) tyme (take (j - i0) ?ts)"
      if "i0 \<le> j" "j \<le> ?n" for j
      unfolding budget_left_def using path_edges_take [OF assms(5) that] by (simp add: take_map)
    have "?pos \<longleftrightarrow> (\<forall>m<length ?ts. 0 < foldl (fsub F) tyme (take m ?ts))"
    proof
      assume p: ?pos
      show "\<forall>m<length ?ts. 0 < foldl (fsub F) tyme (take m ?ts)"
      proof (intro allI impI)
        fix m assume "m < length ?ts"
        then have m: "i0 \<le> i0 + m" "i0 + m < ?n" using len_all by simp_all
        with p have "0 < budget_left F G path tyme i0 (i0 + m)" by blast
        then show "0 < foldl (fsub F) tyme (take m ?ts)" using bl [of "i0 + m"] m by simp
      qed
    next
      assume q: "\<forall>m<length ?ts. 0 < foldl (fsub F) tyme (take m ?ts)"
      show ?pos
      proof (intro allI impI)
        fix j assume j: "i0 \<le> j \<and> j < ?n"
        then have "j - i0 < length ?ts" using len_all by auto
        with q have "0 < foldl (fsub F) tyme (take (j - i0) ?ts)" by blast
        then show "0 < budget_left F G path tyme i0 j" using bl [of j] j by simp
      qed
    qed
    also have "\<dots> \<longleftrightarrow> sum_list (butlast ?ts) < tyme"
      by (rule positive_prefixes [OF F t(1) assms(4) t(2) ts'])
    also have "butlast ?ts = map (edge_time G) (path_edges G path i0 (length path - 2))"
    proof -
      have "path_edges G path i0 (length path - 2) = take (length path - 2 - i0) ?es"
        using assms(1) by (intro path_edges_take [OF assms(5)]) auto
      also have "\<dots> = butlast ?es"
        using len_all by (simp add: butlast_conv_take)
      finally show ?thesis by (simp add: map_butlast)
    qed
    finally show ?thesis using second by simp
  qed
  from first second len_all fourth show ?thesis by blast
qed

theorem oracle_progress_witness:
  "whole_exact exact
   \<and> path_edges zero_time_grafo [1, 2, 3] 0 2 = [(1, 2, 0), (2, 3, 0)]
   \<and> sum_list (map (edge_time zero_time_grafo) (path_edges zero_time_grafo [1, 2, 3] 0 1)) = 300
   \<and> oracle_with exact zero_time_grafo [1, 2, 3] 1 301 = Inr (3, [(1, 2, 0), (2, 3, 0)])"
proof -
  have f1: "find_edge_by_nodes zero_time_grafo 1 2 = Some (1, 2, 0)"
    by (simp add: find_edge_by_nodes_def zero_time_grafo_def)
  have f2: "find_edge_by_nodes zero_time_grafo 2 3 = Some (2, 3, 0)"
    by (simp add: find_edge_by_nodes_def zero_time_grafo_def)
  have pe: "path_edges zero_time_grafo [1, 2, 3] 0 2 = [(1, 2, 0), (2, 3, 0)]"
    by (simp add: path_edges_def upt_rec [of 0] upt_rec [of 1] upt_rec [of "Suc 0"]
        upt_rec [of 2] List.map_filter_simps f1 f2 numeral_2_eq_2)
  have pe1: "path_edges zero_time_grafo [1, 2, 3] 0 1 = [(1, 2, 0)]"
    by code_simp
  have et: "edge_time zero_time_grafo (1, 2, 0) = 300" "edge_time zero_time_grafo (2, 3, 0) = 0"
    by (simp_all add: edge_time_def edge_attrs_def zero_time_grafo_def road_def)
  have we: "whole_exact exact" by (simp add: whole_exact_def exact_def)
  have h1: "(0::nat) < length [1, 2, 3 :: int] - 1" by simp
  have h2: "[1, 2, 3 :: int] ! 0 = 1" by simp
  have h3: "\<forall>j<0::nat. [1, 2, 3 :: int] ! j \<noteq> 1" by simp
  have h4: "(0::real) < 301" by simp
  have h5: "\<forall>j. 0 \<le> j \<and> j < length [1, 2, 3 :: int] - 1 \<longrightarrow>
      find_edge_by_nodes zero_time_grafo ([1, 2, 3] ! j) ([1, 2, 3] ! Suc j) \<noteq> None"
  proof (intro allI impI)
    fix j :: nat assume "0 \<le> j \<and> j < length [1, 2, 3 :: int] - 1"
    then have "j = 0 \<or> j = 1" by auto
    then show "find_edge_by_nodes zero_time_grafo ([1, 2, 3] ! j) ([1, 2, 3] ! Suc j) \<noteq> None"
      using f1 f2 by auto
  qed
  have sum: "sum_list (map (edge_time zero_time_grafo) (path_edges zero_time_grafo [1, 2, 3] 0 1)) = 300"
    unfolding pe1 by (simp add: et)
  have l: "length [1, 2, 3 :: int] - 1 = 2" "length [1, 2, 3 :: int] - 2 = 1" by simp_all
  have "oracle_with exact zero_time_grafo [1, 2, 3] 1 301
      = Inr (last [1, 2, 3], path_edges zero_time_grafo [1, 2, 3] 0 2)"
    using oracle_progress [OF h1 h2 h3 h4 h5, of exact] we unfolding l pe pe1 by (simp add: et)
  with we pe sum show ?thesis by simp
qed

text \<open>
  The claim as it was stated fails twice. From the second of three nodes the oracle
  crosses one edge, not \<open>n - 1 = 2\<close>. And with a last edge that takes no time, a budget
  equal to the total is used up after the first edge, so the walk stops at the middle node.
\<close>

theorem oracle_progress_counterexample:
  "oracle_fn example_grafo [1, 2, 3] 2 1000 = Inr (3, [(2, 3, 0)])
   \<and> length [(2, 3, 0) :: edge] \<noteq> length [1, 2, 3 :: node] - 1
   \<and> sum_list (map (edge_time zero_time_grafo) (path_edges zero_time_grafo [1, 2, 3] 0 2)) = 300
   \<and> oracle_fn zero_time_grafo [1, 2, 3] 1 300 = Inr (2, [(1, 2, 0)])"
  by code_simp

text \<open>
  C5. A path whose consecutive nodes 1 and 3 no edge links: \<^verbatim>\<open>find_edge_by_nodes\<close> returns
  \<^verbatim>\<open>None\<close>, and the oracle, which does not test for it, raises where the claim promises an
  empty result and no failure. A start node that is not in the path does get that result.
\<close>

theorem oracle_edge_miss:
  "find_edge_by_nodes example_grafo 1 3 = None
   \<and> oracle_fn example_grafo [1, 3] 1 600 = Inl TypeError
   \<and> oracle_fn example_grafo [1, 3] 7 600 = Inr (7, [])"
  by code_simp

section \<open>The flood classifier\<close>

lemma flooded_inner_iff:
  "flooded_inner gc p qs tf \<longleftrightarrow> tf \<or> (\<exists>q\<in>set qs. gc p q < 200)"
  by (induction qs) auto

lemma flooded_outer_iff:
  "flooded_outer gc ps qs tf \<longleftrightarrow> tf \<or> (\<exists>p\<in>set ps. \<exists>q\<in>set qs. gc p q < 200)"
  by (induction ps arbitrary: tf) (auto simp: flooded_inner_iff)

lemma edge_lonlats_valid:
  assumes "map_of (edges G) e = Some d" "nodes G (fst e) = Some u" "nodes G (fst (snd e)) = Some v"
  shows "edge_lonlats G e = Inr ((case geometry d of None \<Rightarrow> [] | Some coords \<Rightarrow> coords) @ [u, v])"
  using assms by (simp add: edge_lonlats_def edge_attrs_def node_xy_def split: option.splits)

lemma is_flooded_exists:
  "is_flooded gc G e qs =
    (case edge_lonlats G e of
       Inl err \<Rightarrow> Inl err
     | Inr lonlats \<Rightarrow> Inr (\<exists>p\<in>set lonlats. \<exists>q\<in>set qs. gc (snd p, fst p) q < 200))"
proof (cases "edge_lonlats G e")
  case (Inl err)
  then show ?thesis by (simp add: is_flooded_def)
next
  case (Inr lonlats)
  then show ?thesis
    by (simp add: is_flooded_def flooded_outer_iff case_prod_unfold)
qed

lemma is_flooded_set:
  assumes "set qs = set qs'"
  shows "is_flooded gc G e qs = is_flooded gc G e qs'"
proof (cases "edge_lonlats G e")
  case (Inl err)
  then show ?thesis by (simp add: is_flooded_exists)
next
  case (Inr lonlats)
  then show ?thesis by (simp add: is_flooded_exists assms)
qed

text \<open>
  C6. For an edge of the graph whose two end nodes are in the graph, \<^verbatim>\<open>is_flooded\<close> returns
  true if and only if one of the sampled points of the edge (the vertices of its geometry, if
  it has one, and both end nodes), read as (latitude, longitude), is at a distance strictly
  below 200 of one of the flood points; and for every graph and edge the result is the same
  for any permutation of the list of flood points.
\<close>

theorem is_flooded_iff:
  "(map_of (edges G) e = Some d \<and> nodes G (fst e) = Some u \<and> nodes G (fst (snd e)) = Some v
      \<longrightarrow> is_flooded gc G e qs
          = Inr (\<exists>p\<in>set ((case geometry d of None \<Rightarrow> [] | Some coords \<Rightarrow> coords) @ [u, v]).
                  \<exists>q\<in>set qs. gc (snd p, fst p) q < 200))
   \<and> (mset qs = mset qs' \<longrightarrow> is_flooded gc G e qs = is_flooded gc G e qs')"
proof (intro conjI impI)
  assume "map_of (edges G) e = Some d \<and> nodes G (fst e) = Some u \<and> nodes G (fst (snd e)) = Some v"
  then show "is_flooded gc G e qs
      = Inr (\<exists>p\<in>set ((case geometry d of None \<Rightarrow> [] | Some coords \<Rightarrow> coords) @ [u, v]).
              \<exists>q\<in>set qs. gc (snd p, fst p) q < 200)"
    by (simp add: is_flooded_exists edge_lonlats_valid)
next
  assume "mset qs = mset qs'"
  then have "set qs = set qs'" by (rule mset_eq_setD)
  then show "is_flooded gc G e qs = is_flooded gc G e qs'"
    by (rule is_flooded_set)
qed

theorem is_flooded_iff_witness:
  "is_flooded grid_metric (graph example_grafo) (1, 2, 0) [(5, 5), (21 / 10, 2)] = Inr True
   \<and> is_flooded grid_metric (graph example_grafo) (1, 2, 0) [(21 / 10, 2), (5, 5)] = Inr True
   \<and> is_flooded grid_metric (graph example_grafo) (1, 2, 0) [(5, 5)] = Inr False"
proof -
  have e: "map_of (edges (graph example_grafo)) (1, 2, 0) = Some (road 300)
      \<and> nodes (graph example_grafo) (fst (1, 2, 0 :: nat)) = Some (1, 1)
      \<and> nodes (graph example_grafo) (fst (snd (1, 2, 0 :: nat))) = Some (2, 2)"
    by (simp add: example_grafo_def)
  have m: "mset [(5, 5), (21 / 10, 2 :: real)] = mset [(21 / 10, 2), (5, 5 :: real)]"
    by simp
  have g: "geometry (road 300) = None" by (simp add: road_def)
  have 1: "is_flooded grid_metric (graph example_grafo) (1, 2, 0) [(5, 5), (21 / 10, 2)] = Inr True"
    using is_flooded_iff [of "graph example_grafo" "(1, 2, 0)" "road 300" "(1, 1)" "(2, 2)"
        grid_metric "[(5, 5), (21 / 10, 2)]"] e
    by (simp add: g grid_metric_def)
  have 2: "is_flooded grid_metric (graph example_grafo) (1, 2, 0) [(5, 5)] = Inr False"
    using is_flooded_iff [of "graph example_grafo" "(1, 2, 0)" "road 300" "(1, 1)" "(2, 2)"
        grid_metric "[(5, 5)]"] e
    by (simp add: g grid_metric_def)
  have 3: "is_flooded grid_metric (graph example_grafo) (1, 2, 0) [(5, 5), (21 / 10, 2)]
      = is_flooded grid_metric (graph example_grafo) (1, 2, 0) [(21 / 10, 2), (5, 5)]"
    using is_flooded_iff [of "graph example_grafo" "(1, 2, 0)" "road 300" "(1, 1)" "(2, 2)"
        grid_metric "[(5, 5), (21 / 10, 2)]" "[(21 / 10, 2), (5, 5)]"] m
    by blast
  from 1 2 3 show ?thesis by simp
qed

section \<open>The rain on an edge\<close>

lemma map_err_all:
  "\<forall>x\<in>set xs. f x = Inr (g x) \<Longrightarrow> map_err f xs = Inr (map g xs)"
  by (induction xs) auto

lemma py_index_in_range:
  "0 \<le> i \<Longrightarrow> i < int (length xs) \<Longrightarrow> py_index xs i = Inr (xs ! nat i)"
  by (simp add: py_index_def)

text \<open>
  C7, as amended. For an edge of the graph whose end nodes are in the graph and a radar with
  nonzero cell sizes: when the grid is present and the cell of every sampled point lies inside
  it, \<^verbatim>\<open>rain_at_edge\<close> returns the maximum of the grid over the cells of the sampled points,
  which are the vertices of the geometry, if there is one, together with both end nodes, the
  cell of a point being the float quotients of the float differences \<open>(lat - lat0) / dlat\<close>
  and \<open>(lon - lon0) / dlon\<close>, truncated toward zero; when the grid is absent the call fails
  with a \<^verbatim>\<open>TypeError\<close>. This holds whatever the rounding of the float operations.
\<close>

theorem rain_at_edge_max:
  assumes "map_of (edges G) e = Some d" "nodes G (fst e) = Some u" "nodes G (fst (snd e)) = Some v"
    and "dlat R \<noteq> 0" "dlon R \<noteq> 0"
  shows "(rain_by_time R t = Some A
          \<and> (\<forall>p\<in>set ((case geometry d of None \<Rightarrow> [] | Some coords \<Rightarrow> coords) @ [u, v]).
                0 \<le> row_of F R p \<and> row_of F R p < int (length A)
                \<and> 0 \<le> col_of F R p \<and> col_of F R p < int (length (A ! nat (row_of F R p))))
        \<longrightarrow> rain_at_edge F R G e t
            = Inr (Max ((\<lambda>p. A ! nat (row_of F R p) ! nat (col_of F R p))
                    ` set ((case geometry d of None \<Rightarrow> [] | Some coords \<Rightarrow> coords) @ [u, v]))))
     \<and> (rain_by_time R t = None \<longrightarrow> rain_at_edge F R G e t = Inl TypeError)"
proof (intro conjI impI)
  let ?ps = "(case geometry d of None \<Rightarrow> [] | Some coords \<Rightarrow> coords) @ [u, v]"
  have ll: "edge_lonlats G e = Inr ?ps" by (rule edge_lonlats_valid [OF assms(1-3)])
  have rc: "map_err (rowcol F R) ?ps = Inr (map (\<lambda>p. (row_of F R p, col_of F R p)) ?ps)"
    using assms(4,5)
    by (intro map_err_all) (auto simp: rowcol_def row_of_def col_of_def split: prod.splits)
  {
    assume "rain_by_time R t = None"
    then have "map_err (cell (rain_by_time R t)) (map (\<lambda>p. (row_of F R p, col_of F R p)) ?ps)
        = Inl TypeError"
      by (cases "case geometry d of None \<Rightarrow> [] | Some coords \<Rightarrow> coords") (simp_all add: cell_def)
    then show "rain_at_edge F R G e t = Inl TypeError"
      by (simp add: rain_at_edge_def ll rc Let_def)
  }
  {
    assume a: "rain_by_time R t = Some A
          \<and> (\<forall>p\<in>set ?ps.
                0 \<le> row_of F R p \<and> row_of F R p < int (length A)
                \<and> 0 \<le> col_of F R p \<and> col_of F R p < int (length (A ! nat (row_of F R p))))"
    have "map_err (cell (Some A)) (map (\<lambda>p. (row_of F R p, col_of F R p)) ?ps)
        = Inr (map (\<lambda>rc. A ! nat (fst rc) ! nat (snd rc)) (map (\<lambda>p. (row_of F R p, col_of F R p)) ?ps))"
      using a by (intro map_err_all) (auto simp: cell_def py_index_in_range)
    moreover have "py_max (map (\<lambda>rc. A ! nat (fst rc) ! nat (snd rc))
          (map (\<lambda>p. (row_of F R p, col_of F R p)) ?ps))
        = Inr (Max ((\<lambda>p. A ! nat (row_of F R p) ! nat (col_of F R p)) ` set ?ps))"
      by (simp add: py_max_def image_image)
    ultimately show "rain_at_edge F R G e t
        = Inr (Max ((\<lambda>p. A ! nat (row_of F R p) ! nat (col_of F R p)) ` set ?ps))"
      using a by (simp add: rain_at_edge_def ll rc Let_def)
  }
qed

theorem rain_at_edge_max_witness:
  "rain_at_edge exact example_radar bend_graph (1, 2, 0) noon = Inr 7
   \<and> rain_at_edge exact silent_radar bend_graph (1, 2, 0) noon = Inl TypeError"
proof -
  let ?d = "\<lparr>travel_time = 60, geometry = Some [(1 / 2, 1 / 2)], weight = None\<rparr>"
  have e: "map_of (edges bend_graph) (1, 2, 0) = Some ?d"
    "nodes bend_graph (fst (1, 2, 0 :: nat)) = Some (1 / 2, 3 / 2)"
    "nodes bend_graph (fst (snd (1, 2, 0 :: nat))) = Some (1 / 2, 3 / 2)"
    by (simp_all add: bend_graph_def)
  have r: "dlat example_radar \<noteq> 0" "dlon example_radar \<noteq> 0"
    by (simp_all add: example_radar_def)
  have s: "dlat silent_radar \<noteq> 0" "dlon silent_radar \<noteq> 0"
    by (simp_all add: silent_radar_def)
  have g: "rain_by_time example_radar noon = Some [[5], [7]]"
    by (simp add: rain_by_time_def example_radar_def)
  have n: "rain_by_time silent_radar noon = None"
    by (simp add: rain_by_time_def silent_radar_def)
  have c: "row_of exact example_radar (1 / 2, 1 / 2) = 0" "col_of exact example_radar (1 / 2, 1 / 2) = 0"
    "row_of exact example_radar (1 / 2, 3 / 2) = 1" "col_of exact example_radar (1 / 2, 3 / 2) = 0"
    by (simp_all add: row_of_def col_of_def py_int_def example_radar_def exact_def)
  have 1: "rain_at_edge exact example_radar bend_graph (1, 2, 0) noon = Inr 7"
    using rain_at_edge_max [OF e r, where F = exact and t = noon and A = "[[5], [7]]"] g
    by (simp add: c)
  have 2: "rain_at_edge exact silent_radar bend_graph (1, 2, 0) noon = Inl TypeError"
    using rain_at_edge_max [OF e s, where F = exact and t = noon] n by simp
  from 1 2 show ?thesis by simp
qed

text \<open>
  The claim as it was stated fails twice. South of the origin of the grid truncation and
  floor name different cells: the code reads row 0, the floor is row \<open>-1\<close>, the last row of
  the grid. And an edge with a geometry is sampled at its end nodes too, which here lie in a
  wetter cell than its only vertex.
\<close>

theorem rain_at_edge_max_counterexample:
  "rowcol exact example_radar (1 / 2, - 1 / 2) = Inr (0, 0)
   \<and> spec_rowcol example_radar (1 / 2, - 1 / 2) = (- 1, 0)
   \<and> rain_at_edge exact example_radar south_graph (1, 2, 0) noon = Inr 5
   \<and> spec_rain_at_edge example_radar south_graph (1, 2, 0) noon = Inr 7
   \<and> rain_at_edge exact example_radar bend_graph (1, 2, 0) noon = Inr 7
   \<and> spec_rain_at_edge example_radar bend_graph (1, 2, 0) noon = Inr 5"
  by code_simp

section \<open>The flood reports\<close>

lemma digit_char_codes:
  "list_all (\<lambda>d. (of_char (digit_char d) :: nat) = 48 + d) [0..<10]"
  by code_simp

lemma digit_char_code:
  assumes "d < 10"
  shows "(of_char (digit_char d) :: nat) = 48 + d"
proof -
  from assms have "d \<in> set [0..<10]" by simp
  with digit_char_codes show ?thesis
    unfolding list_all_iff by blast
qed

lemma digit_char_less:
  "a < 10 \<Longrightarrow> b < 10 \<Longrightarrow> digit_char a < digit_char b \<longleftrightarrow> a < b"
  by (simp add: less_char_def digit_char_code)

lemma digit_char_eq:
  assumes "a < 10" "b < 10"
  shows "digit_char a = digit_char b \<longleftrightarrow> a = b"
proof
  assume "digit_char a = digit_char b"
  then have "(of_char (digit_char a) :: nat) = of_char (digit_char b)" by simp
  then show "a = b" using assms by (simp add: digit_char_code)
qed simp

lemma format_2:
  assumes "0 \<le> x" "x < 100"
  shows "format_0d 2 x = [digit_char (nat x div 10), digit_char (nat x mod 10)]"
proof (cases "nat x < 10")
  case True
  then have "digits (nat x) = [digit_char (nat x)]" by simp
  moreover have "digit_char 0 = CHR ''0''" by (simp add: digit_char_def)
  ultimately show ?thesis using assms True
    by (simp add: format_0d_def zfill_def numeral_2_eq_2)
next
  case False
  then have "nat x div 10 < 10" using assms by auto
  then have "digits (nat x) = [digit_char (nat x div 10), digit_char (nat x mod 10)]"
    using False by (subst digits.simps) simp
  then show ?thesis using assms by (simp add: format_0d_def zfill_def)
qed

lemma two_digits_less:
  fixes a b :: nat
  shows "(a div 10 < b div 10 \<or> a div 10 = b div 10 \<and> a mod 10 < b mod 10) \<longleftrightarrow> a < b"
proof -
  define q r q' r' where "q = a div 10" and "r = a mod 10" and "q' = b div 10" and "r' = b mod 10"
  have a: "a = 10 * q + r" and b: "b = 10 * q' + r'" and r: "r < 10" and r': "r' < 10"
    by (simp_all add: q_def r_def q'_def r'_def)
  have "(q < q' \<or> q = q' \<and> r < r') \<longleftrightarrow> 10 * q + r < 10 * q' + r'"
    using r r' by linarith
  then show ?thesis
    unfolding a b unfolding q_def r_def q'_def r'_def by simp
qed

lemma two_digits_eq:
  fixes a b :: nat
  shows "a div 10 = b div 10 \<and> a mod 10 = b mod 10 \<longleftrightarrow> a = b"
  by (metis div_mult_mod_eq)

lemma format_2_less:
  assumes "0 \<le> x" "x < 100" "0 \<le> y" "y < 100"
  shows "format_0d 2 x < format_0d 2 y \<longleftrightarrow> x < y"
proof -
  have b: "nat x div 10 < 10" "nat x mod 10 < 10" "nat y div 10 < 10" "nat y mod 10 < 10"
    using assms by auto
  have "format_0d 2 x < format_0d 2 y \<longleftrightarrow>
      nat x div 10 < nat y div 10 \<or> nat x div 10 = nat y div 10 \<and> nat x mod 10 < nat y mod 10"
    by (simp add: format_2 assms digit_char_less digit_char_eq b)
  also have "\<dots> \<longleftrightarrow> nat x < nat y"
    by (rule two_digits_less)
  also have "\<dots> \<longleftrightarrow> x < y" using assms by auto
  finally show ?thesis .
qed

lemma format_2_eq:
  assumes "0 \<le> x" "x < 100" "0 \<le> y" "y < 100"
  shows "format_0d 2 x = format_0d 2 y \<longleftrightarrow> x = y"
proof -
  have b: "nat x div 10 < 10" "nat x mod 10 < 10" "nat y div 10 < 10" "nat y mod 10 < 10"
    using assms by auto
  have "format_0d 2 x = format_0d 2 y \<longleftrightarrow>
      nat x div 10 = nat y div 10 \<and> nat x mod 10 = nat y mod 10"
    by (simp add: format_2 assms digit_char_eq b)
  also have "\<dots> \<longleftrightarrow> nat x = nat y"
    by (rule two_digits_eq)
  also have "\<dots> \<longleftrightarrow> x = y" using assms by auto
  finally show ?thesis .
qed

lemma format_2_length: "0 \<le> x \<Longrightarrow> x < 100 \<Longrightarrow> length (format_0d 2 x) = 2"
  by (simp add: format_2)

lemma append_less_same_length:
  fixes xs ys :: "'a::linorder list"
  assumes "length xs = length ys"
  shows "xs @ us < ys @ vs \<longleftrightarrow> xs < ys \<or> xs = ys \<and> us < vs"
  using assms by (induction xs ys rule: list_induct2) auto

lemma lex_seconds:
  fixes h m s h' m' s' :: int
  assumes "0 \<le> m" "m < 60" "0 \<le> s" "s < 60" "0 \<le> m'" "m' < 60" "0 \<le> s'" "s' < 60"
  shows "(h < h' \<or> h = h' \<and> (m < m' \<or> m = m' \<and> s < s'))
     \<longleftrightarrow> 3600 * h + 60 * m + s < 3600 * h' + 60 * m' + s'"
  using assms by linarith

lemma time_of_day_less:
  assumes "in_day a" "in_day b"
  shows "time_of_day a < time_of_day b \<longleftrightarrow> seconds_of_day a < seconds_of_day b"
proof -
  obtain h m s where a: "a = (h, m, s)" by (cases a) auto
  obtain h' m' s' where b: "b = (h', m', s')" by (cases b) auto
  from assms have r: "0 \<le> h" "h < 100" "0 \<le> m" "m < 100" "0 \<le> s" "s < 100"
      "0 \<le> h'" "h' < 100" "0 \<le> m'" "m' < 100" "0 \<le> s'" "s' < 100"
    and q: "0 \<le> m" "m < 60" "0 \<le> s" "s < 60" "0 \<le> m'" "m' < 60" "0 \<le> s'" "s' < 60"
    by (simp_all add: in_day_def a b)
  have "time_of_day a < time_of_day b \<longleftrightarrow>
      format_0d 2 h @ (CHR '':'' # format_0d 2 m @ CHR '':'' # format_0d 2 s)
        < format_0d 2 h' @ (CHR '':'' # format_0d 2 m' @ CHR '':'' # format_0d 2 s')"
    by (simp add: time_of_day_def a b)
  also have "\<dots> \<longleftrightarrow> format_0d 2 h < format_0d 2 h' \<or> format_0d 2 h = format_0d 2 h'
      \<and> format_0d 2 m @ (CHR '':'' # format_0d 2 s) < format_0d 2 m' @ (CHR '':'' # format_0d 2 s')"
    using r by (subst append_less_same_length) (simp_all add: format_2_length)
  also have "format_0d 2 m @ (CHR '':'' # format_0d 2 s) < format_0d 2 m' @ (CHR '':'' # format_0d 2 s')
      \<longleftrightarrow> format_0d 2 m < format_0d 2 m' \<or> format_0d 2 m = format_0d 2 m'
        \<and> format_0d 2 s < format_0d 2 s'"
    using r by (subst append_less_same_length) (simp_all add: format_2_length)
  also have "(format_0d 2 h < format_0d 2 h' \<or> format_0d 2 h = format_0d 2 h'
      \<and> (format_0d 2 m < format_0d 2 m' \<or> format_0d 2 m = format_0d 2 m'
        \<and> format_0d 2 s < format_0d 2 s'))
      \<longleftrightarrow> (h < h' \<or> h = h' \<and> (m < m' \<or> m = m' \<and> s < s'))"
    using r by (simp add: format_2_less format_2_eq)
  also have "\<dots> \<longleftrightarrow> seconds_of_day a < seconds_of_day b"
    unfolding seconds_of_day_def a b using lex_seconds [OF q] by simp
  finally show ?thesis .
qed


lemma flooding_points_filter:
  "get_flooding_points tr sheet t
    = map (\<lambda>r. tr (X r) (Y r))
        (filter (\<lambda>r. DATE r = date_label t \<and> START_T r < time_of_day (now t)
                   \<and> time_of_day (now t) < END_T r) sheet)"
  by (simp add: get_flooding_points_def Let_def date_label_def time_of_day_def now_def
      convert_coordinates_def comp_def)

text \<open>
  C4, as amended. Let the hour, minute and second of the timestamp be in range, and let the
  rows of the sheet give their two times as times of day written \<^verbatim>\<open>HH:MM:SS\<close>. Then
  \<^verbatim>\<open>get_flooding_points\<close> returns, in the order of the sheet, the converted coordinates of
  exactly the rows whose date is the date of the timestamp and whose start is earlier, and
  whose end is later, than the time of day of the timestamp: the interval is open at both
  ends. When no row is such, the result is the empty list.
\<close>

theorem flooding_points_open:
  assumes "in_day (now t)"
    and "\<forall>r\<in>set reports. in_day (from_time r) \<and> in_day (to_time r)"
  shows "get_flooding_points tr (map sheet_row reports) t
           = map (\<lambda>r. tr (at_x r) (at_y r))
               (filter (\<lambda>r. on_date r = date_label t
                          \<and> seconds_of_day (from_time r) < seconds_of_day (now t)
                          \<and> seconds_of_day (now t) < seconds_of_day (to_time r)) reports)
       \<and> ((\<forall>r\<in>set reports. \<not> (on_date r = date_label t
                          \<and> seconds_of_day (from_time r) < seconds_of_day (now t)
                          \<and> seconds_of_day (now t) < seconds_of_day (to_time r)))
            \<longrightarrow> get_flooding_points tr (map sheet_row reports) t = [])"
proof -
  let ?P = "\<lambda>r. on_date r = date_label t
      \<and> seconds_of_day (from_time r) < seconds_of_day (now t)
      \<and> seconds_of_day (now t) < seconds_of_day (to_time r)"
  let ?Q = "\<lambda>r. DATE r = date_label t \<and> START_T r < time_of_day (now t)
      \<and> time_of_day (now t) < END_T r"
  have pq: "?Q (sheet_row r) \<longleftrightarrow> ?P r" if "r \<in> set reports" for r
    using that assms by (simp add: sheet_row_def time_of_day_less)
  have "filter ?Q (map sheet_row reports) = map sheet_row (filter (\<lambda>r. ?Q (sheet_row r)) reports)"
    by (simp add: filter_map comp_def)
  also have "filter (\<lambda>r. ?Q (sheet_row r)) reports = filter ?P reports"
    using pq by (intro filter_cong) auto
  finally have f: "filter ?Q (map sheet_row reports) = map sheet_row (filter ?P reports)" .
  have 1: "get_flooding_points tr (map sheet_row reports) t
      = map (\<lambda>r. tr (at_x r) (at_y r)) (filter ?P reports)"
    unfolding flooding_points_filter f by (simp add: comp_def sheet_row_def)
  have 2: "get_flooding_points tr (map sheet_row reports) t = []"
    if "\<forall>r\<in>set reports. \<not> ?P r"
  proof -
    from that have "filter ?P reports = []" by (simp add: filter_empty_conv)
    with 1 show ?thesis by simp
  qed
  from 1 2 show ?thesis by blast
qed

theorem flooding_points_open_witness:
  "in_day (10, 0, 1) \<and> in_day (10, 0, 0) \<and> in_day (11, 0, 0)
   \<and> get_flooding_points swap_axes (map sheet_row [example_report])
        \<lparr>year = 2019, month = 2, day = 10, hour = 10, minute = 0, second = 1\<rparr> = [(2, 1)]
   \<and> get_flooding_points swap_axes (map sheet_row [example_report])
        \<lparr>year = 2019, month = 2, day = 11, hour = 10, minute = 0, second = 1\<rparr> = []"
proof -
  let ?t = "\<lparr>year = 2019, month = 2, day = 10, hour = 10, minute = 0, second = 1\<rparr>"
  let ?u = "\<lparr>year = 2019, month = 2, day = 11, hour = 10, minute = 0, second = 1\<rparr>"
  have d: "in_day (10, 0, 1)" "in_day (10, 0, 0)" "in_day (11, 0, 0)"
    by (simp_all add: in_day_def)
  have n: "now ?t = (10, 0, 1)" "now ?u = (10, 0, 1)" by (simp_all add: now_def)
  have r: "\<forall>r\<in>set [example_report]. in_day (from_time r) \<and> in_day (to_time r)"
    by (simp add: example_report_def in_day_def)
  have l: "date_label ?t = ''2019-02-10''" "date_label ?u = ''2019-02-11''"
    by code_simp+
  have e: "on_date example_report = ''2019-02-10''" "from_time example_report = (10, 0, 0)"
    "to_time example_report = (11, 0, 0)" "at_x example_report = 1" "at_y example_report = 2"
    by (simp_all add: example_report_def)
  have s: "seconds_of_day (10, 0, 0) = 36000" "seconds_of_day (10, 0, 1) = 36001"
    "seconds_of_day (11, 0, 0) = 39600"
    by (simp_all add: seconds_of_day_def)
  have 1: "get_flooding_points swap_axes (map sheet_row [example_report]) ?t = [(2, 1)]"
    using flooding_points_open [of ?t "[example_report]" swap_axes] d r
    by (simp add: n l e s swap_axes_def)
  have 2: "get_flooding_points swap_axes (map sheet_row [example_report]) ?u = []"
    using flooding_points_open [of ?u "[example_report]" swap_axes] d r
    by (simp add: n l e s)
  from d 1 2 show ?thesis by simp
qed

text \<open>
  The claim as it was stated fails for a row that starts at the very second of the
  timestamp: the claim includes it, the comparison \<^verbatim>\<open>START_T < start_time\<close> does not. One
  second later the row is returned.
\<close>

theorem flooding_points_open_counterexample:
  "sheet_row example_report
     = \<lparr>DATE = ''2019-02-10'', START_T = ''10:00:00'', END_T = ''11:00:00'', X = 1, Y = 2\<rparr>
   \<and> get_flooding_points swap_axes [sheet_row example_report]
        \<lparr>year = 2019, month = 2, day = 10, hour = 10, minute = 0, second = 0\<rparr> = []
   \<and> get_flooding_points swap_axes [sheet_row example_report]
        \<lparr>year = 2019, month = 2, day = 10, hour = 10, minute = 0, second = 1\<rparr> = [(2, 1)]"
  by code_simp

section \<open>An iteration without a rainfall grid\<close>

lemma save_rains_zero:
  assumes "save_rains (map (\<lambda>e. (e, 0)) es) subpath edge_rains = Inr edge_rains'"
  shows "\<forall>e. map_of edge_rains' e = (if e \<in> set subpath then Some 0 else map_of edge_rains e)"
  using assms
proof (induction subpath arbitrary: edge_rains)
  case Nil
  then show ?case by simp
next
  case (Cons a subpath)
  from Cons.prems obtain v where v: "map_of (map (\<lambda>e. (e, 0)) es) a = Some v"
    and r: "save_rains (map (\<lambda>e. (e, 0)) es) subpath (AList.update a v edge_rains) = Inr edge_rains'"
    by (auto split: option.splits)
  from v have "v = 0" by (auto dest!: map_of_SomeD)
  with Cons.IH [OF r] show ?case by (auto simp: update_conv')
qed

text \<open>
  C8. In an iteration of the main loop at whose timestamp the radar has no grid, the
  dictionary \<open>rains\<close> has the value 0 for every edge of the current graph and the store is
  left as it was, so no weight attribute is written: whatever weights the edges had, or
  none, they keep. When the iteration completes, the graph of every \<^verbatim>\<open>Grafo\<close> object is
  unchanged, and the rain recorded for each edge that was crossed is 0.
\<close>

theorem absent_grid:
  assumes "rain_by_time (radar (experiments h self)) (agoras h time) = None"
  shows "update_weights F weigh self time flooding_points h
           = Inr (h, map (\<lambda>e. (e, 0)) (map fst (edges (graph (grafos h (grafo (experiments h self)))))))
       \<and> (iteration W weigh self time (h, start, edge_rains) = Inr (h', start', edge_rains')
            \<longrightarrow> grafos h' = grafos h \<and> experiments h' = experiments h
                \<and> (\<exists>subpath. set subpath \<subseteq> fst ` set (edges (graph (grafos h (grafo (experiments h self)))))
                      \<and> (\<forall>e. map_of edge_rains' e
                              = (if e \<in> set subpath then Some 0 else map_of edge_rains e))))"
proof (intro conjI impI)
  let ?G = "graph (grafos h (grafo (experiments h self)))"
  show u: "update_weights F weigh self time flooding_points h
      = Inr (h, map (\<lambda>e. (e, 0)) (map fst (edges ?G)))" for F flooding_points
    using assms by (simp add: update_weights_def Let_def)
  assume it: "iteration W weigh self time (h, start, edge_rains) = Inr (h', start', edge_rains')"
  let ?rains = "map (\<lambda>e. (e, 0::int)) (map fst (edges ?G))"
  from it obtain shortest_path first subpath where
    h': "h' = h\<lparr>agoras := (agoras h)(time := step (agoras h time) 600)\<rparr>"
    and sr: "save_rains ?rains subpath edge_rains = Inr edge_rains'"
    unfolding iteration_def
    by (auto simp: u Let_def split: sum.splits prod.splits)
  from h' show "grafos h' = grafos h" by simp
  from h' show "experiments h' = experiments h" by simp
  have sub: "set subpath \<subseteq> fst ` set (edges ?G)"
    using sr
  proof (induction subpath arbitrary: edge_rains)
    case Nil
    then show ?case by simp
  next
    case (Cons a subpath)
    from Cons.prems obtain v where v: "map_of ?rains a = Some v"
      and r: "save_rains ?rains subpath (AList.update a v edge_rains) = Inr edge_rains'"
      by (auto split: option.splits)
    from v have "a \<in> fst ` set (edges ?G)" by (auto dest!: map_of_SomeD)
    with Cons.IH [OF r] show ?case by simp
  qed
  from save_rains_zero [OF sr] sub
  show "\<exists>subpath. set subpath \<subseteq> fst ` set (edges ?G)
      \<and> (\<forall>e. map_of edge_rains' e = (if e \<in> set subpath then Some 0 else map_of edge_rains e))"
    by blast
qed

theorem absent_grid_witness:
  "rain_by_time silent_radar noon = None
   \<and> map_sum id snd (update_weights exact flat_weight 0 0 [] (example_store silent_radar))
       = Inr [((1, 2, 0), 0), ((2, 3, 0), 0)]
   \<and> (case iteration example_world flat_weight 0 0 (example_store silent_radar, 1, []) of
         Inl err \<Rightarrow> False
       | Inr (h', start', edge_rains') \<Rightarrow>
           grafos h' = grafos (example_store silent_radar) \<and> start' = 3
           \<and> edge_rains' = [((1, 2, 0), 0), ((2, 3, 0), 0)])"
proof -
  let ?h = "example_store silent_radar"
  have n: "rain_by_time silent_radar noon = None"
    by (simp add: rain_by_time_def silent_radar_def)
  then have a: "rain_by_time (radar (experiments ?h 0)) (agoras ?h 0) = None"
    by (simp add: example_store_def)
  have 1: "map_sum id snd (update_weights exact flat_weight 0 0 [] ?h)
      = Inr [((1, 2, 0), 0), ((2, 3, 0), 0)]"
    using absent_grid [OF a, of exact flat_weight "[]"]
    by (simp add: example_store_def example_grafo_def)
  have "case iteration example_world flat_weight 0 0 (?h, 1, []) of
          Inl err \<Rightarrow> False
        | Inr (h', start', edge_rains') \<Rightarrow>
            start' = 3 \<and> edge_rains' = [((1, 2, 0), 0), ((2, 3, 0), 0)]"
    by code_simp
  then obtain h' where
    it: "iteration example_world flat_weight 0 0 (?h, 1, [])
      = Inr (h', 3, [((1, 2, 0), 0), ((2, 3, 0), 0)])"
    by (auto split: sum.splits)
  from absent_grid [OF a, of exact flat_weight "[]" example_world 1 "[]" h' 3
      "[((1, 2, 0), 0), ((2, 3, 0), 0)]"] it
  have "grafos h' = grafos ?h" by blast
  with n 1 it show ?thesis by simp
qed

section \<open>The crop\<close>

lemma truncate_subgraph: "subgraph (truncate_graph_bbox G north south east west) G"
  by (auto simp: subgraph_def truncate_graph_bbox_def Let_def split: if_splits)

lemma map_err_Inr:
  "map_err g xs = Inr ys \<Longrightarrow> ys = map (\<lambda>x. projr (g x)) xs \<and> (\<forall>x\<in>set xs. \<exists>y. g x = Inr y)"
proof (induction xs arbitrary: ys)
  case Nil
  then show ?case by simp
next
  case (Cons a xs)
  show ?case
  proof (cases "g a")
    case (Inl err)
    with Cons.prems show ?thesis by simp
  next
    case y: (Inr y)
    show ?thesis
    proof (cases "map_err g xs")
      case (Inl err)
      with Cons.prems y show ?thesis by simp
    next
      case (Inr zs)
      with Cons.prems y have "ys = y # zs" by simp
      with Cons.IH [OF Inr] y show ?thesis by simp
    qed
  qed
qed

lemma map_err_node:
  assumes "map_err (\<lambda>n. map_sum id f (node_xy G n)) path = Inr ys"
  shows "(\<forall>n\<in>set path. nodes G n \<noteq> None) \<and> ys = map (\<lambda>n. f (the (nodes G n))) path"
proof -
  note m = map_err_Inr [OF assms]
  have ex: "nodes G n \<noteq> None" if "n \<in> set path" for n
  proof
    assume "nodes G n = None"
    then have "map_sum id f (node_xy G n) = Inl KeyError" by (simp add: node_xy_def)
    with m that show False by auto
  qed
  have "projr (map_sum id f (node_xy G n)) = f (the (nodes G n))" if "n \<in> set path" for n
  proof -
    from ex [OF that] obtain p where "nodes G n = Some p" by (metis not_None_eq)
    then show ?thesis by (simp add: node_xy_def)
  qed
  then have "map (\<lambda>x. projr (map_sum id f (node_xy G x))) path = map (\<lambda>n. f (the (nodes G n))) path"
    by (intro map_cong) auto
  with m ex show ?thesis by simp
qed

text \<open>What a crop that succeeds has done.\<close>

lemma crop_box:
  assumes "crop F pl self a b = Inr g1"
  shows "\<exists>path. pl (graph self) a b ''travel_time'' = Inr path \<and> path \<noteq> []
      \<and> (\<forall>n\<in>set path. nodes (graph self) n \<noteq> None)
      \<and> g1 = self\<lparr>graph := truncate_graph_bbox (graph self)
           (min (latoo self) (fadd F (Max (set (map (\<lambda>n. snd (the (nodes (graph self) n))) path)))
               (fsub F (Max (set (map (\<lambda>n. snd (the (nodes (graph self) n))) path)))
                       (Min (set (map (\<lambda>n. snd (the (nodes (graph self) n))) path))))))
           (max (lat0 self) (fsub F (Min (set (map (\<lambda>n. snd (the (nodes (graph self) n))) path)))
               (fsub F (Max (set (map (\<lambda>n. snd (the (nodes (graph self) n))) path)))
                       (Min (set (map (\<lambda>n. snd (the (nodes (graph self) n))) path))))))
           (min (lonoo self) (fadd F (Max (set (map (\<lambda>n. fst (the (nodes (graph self) n))) path)))
               (fsub F (Max (set (map (\<lambda>n. fst (the (nodes (graph self) n))) path)))
                       (Min (set (map (\<lambda>n. fst (the (nodes (graph self) n))) path))))))
           (max (lon0 self) (fsub F (Min (set (map (\<lambda>n. fst (the (nodes (graph self) n))) path)))
               (fsub F (Max (set (map (\<lambda>n. fst (the (nodes (graph self) n))) path)))
                       (Min (set (map (\<lambda>n. fst (the (nodes (graph self) n))) path))))))\<rparr>"
proof -
  from assms obtain path where path: "pl (graph self) a b ''travel_time'' = Inr path"
    unfolding crop_def by (auto split: sum.splits)
  from assms path obtain lats where lats:
    "map_err (\<lambda>n. map_sum id snd (node_xy (graph self) n)) path = Inr lats"
    unfolding crop_def by (auto split: sum.splits)
  from assms path lats obtain lons where lons:
    "map_err (\<lambda>n. map_sum id fst (node_xy (graph self) n)) path = Inr lons"
    unfolding crop_def by (auto split: sum.splits)
  from assms path lats lons have ne: "lats \<noteq> []"
    unfolding crop_def by (auto simp: py_min_def split: sum.splits if_splits)
  note la = map_err_node [OF lats] and lo = map_err_node [OF lons]
  from ne la have pne: "path \<noteq> []" by auto
  then have ne': "lons \<noteq> []" using lo by auto
  have "g1 = self\<lparr>graph := truncate_graph_bbox (graph self)
      (min (latoo self) (fadd F (Max (set lats)) (fsub F (Max (set lats)) (Min (set lats)))))
      (max (lat0 self) (fsub F (Min (set lats)) (fsub F (Max (set lats)) (Min (set lats)))))
      (min (lonoo self) (fadd F (Max (set lons)) (fsub F (Max (set lons)) (Min (set lons)))))
      (max (lon0 self) (fsub F (Min (set lons)) (fsub F (Max (set lons)) (Min (set lons)))))\<rparr>"
    using assms unfolding crop_def
    by (simp add: path lats lons py_min_def py_max_def ne ne' Let_def)
  then show ?thesis using path pne la lo by (intro exI [of _ path]) simp
qed

text \<open>
  C9. The graph that a crop leaves is a subgraph of the graph it was given; so the graph
  after a second crop with the same two nodes is a subgraph of the graph after the first.
  When the float operations round monotonically and the nodes of the path from which the
  box is computed are within the bounds of the \<^verbatim>\<open>Grafo\<close>, the crop keeps every node of that
  path, with its coordinates, and every edge between two nodes of the path.
\<close>

theorem crop_contained:
  "(crop F pl self a b = Inr g1 \<longrightarrow> subgraph (graph g1) (graph self))
   \<and> (crop F pl self a b = Inr g1 \<and> crop F pl g1 a b = Inr g2
        \<longrightarrow> subgraph (graph g2) (graph g1) \<and> subgraph (graph g2) (graph self))
   \<and> (rounds_monotone F \<and> crop F pl self a b = Inr g1
        \<and> pl (graph self) a b ''travel_time'' = Inr path
        \<and> (\<forall>n\<in>set path. nodes (graph self) n \<noteq> None \<longrightarrow> within_bounds self n)
        \<longrightarrow> (\<forall>n\<in>set path. nodes (graph g1) n = nodes (graph self) n
                               \<and> nodes (graph self) n \<noteq> None)
            \<and> (\<forall>ed\<in>set (edges (graph self)).
                  fst (fst ed) \<in> set path \<and> fst (snd (fst ed)) \<in> set path
                  \<longrightarrow> ed \<in> set (edges (graph g1))))"
proof (intro conjI impI)
  have sub: "subgraph (graph g') (graph g)" if "crop F pl g a b = Inr g'" for g g'
  proof -
    from crop_box [OF that] obtain north south east west
      where "g' = g\<lparr>graph := truncate_graph_bbox (graph g) north south east west\<rparr>" by blast
    then show ?thesis by (simp add: truncate_subgraph)
  qed
  show "subgraph (graph g1) (graph self)" if "crop F pl self a b = Inr g1"
    using that by (rule sub)
  show "subgraph (graph g2) (graph g1)"
    if "crop F pl self a b = Inr g1 \<and> crop F pl g1 a b = Inr g2"
    using that by (intro sub) simp
  show "subgraph (graph g2) (graph self)"
    if "crop F pl self a b = Inr g1 \<and> crop F pl g1 a b = Inr g2"
  proof -
    from that have "subgraph (graph g2) (graph g1)" "subgraph (graph g1) (graph self)"
      by (auto intro: sub)
    then show ?thesis unfolding subgraph_def by blast
  qed
next
  assume a: "rounds_monotone F \<and> crop F pl self a b = Inr g1
      \<and> pl (graph self) a b ''travel_time'' = Inr path
      \<and> (\<forall>n\<in>set path. nodes (graph self) n \<noteq> None \<longrightarrow> within_bounds self n)"
  let ?G = "graph self"
  let ?lats = "map (\<lambda>n. snd (the (nodes ?G n))) path"
  let ?lons = "map (\<lambda>n. fst (the (nodes ?G n))) path"
  let ?north = "min (latoo self) (fadd F (Max (set ?lats)) (fsub F (Max (set ?lats)) (Min (set ?lats))))"
  let ?south = "max (lat0 self) (fsub F (Min (set ?lats)) (fsub F (Max (set ?lats)) (Min (set ?lats))))"
  let ?east = "min (lonoo self) (fadd F (Max (set ?lons)) (fsub F (Max (set ?lons)) (Min (set ?lons))))"
  let ?west = "max (lon0 self) (fsub F (Min (set ?lons)) (fsub F (Max (set ?lons)) (Min (set ?lons))))"
  from a have F: "rounds_monotone F" and c: "crop F pl self a b = Inr g1"
    and p: "pl ?G a b ''travel_time'' = Inr path" by simp_all
  from crop_box [OF c] p have ne: "path \<noteq> []" and ex: "\<forall>n\<in>set path. nodes ?G n \<noteq> None"
    and g1: "g1 = self\<lparr>graph := truncate_graph_bbox ?G ?north ?south ?east ?west\<rparr>"
    by auto
  have keep: "inside_bbox ?north ?south ?east ?west (the (nodes ?G n))" if n: "n \<in> set path" for n
  proof -
    from n ex obtain q where q: "nodes ?G n = Some q" by auto
    with a n have "within_bounds self n" by auto
    with q have b: "lat0 self \<le> snd q" "snd q \<le> latoo self" "lon0 self \<le> fst q" "fst q \<le> lonoo self"
      by (simp_all add: within_bounds_def inside_bbox_def)
    have la: "snd q \<in> set ?lats" and lo: "fst q \<in> set ?lons"
      using n q by force+
    have 1: "Min (set ?lats) \<le> snd q" "snd q \<le> Max (set ?lats)"
      using la by simp_all
    have 2: "Min (set ?lons) \<le> fst q" "fst q \<le> Max (set ?lons)"
      using lo by simp_all
    have d1: "0 \<le> fsub F (Max (set ?lats)) (Min (set ?lats))"
      using F 1 unfolding rounds_monotone_def by (meson order_trans)
    have d2: "0 \<le> fsub F (Max (set ?lons)) (Min (set ?lons))"
      using F 2 unfolding rounds_monotone_def by (meson order_trans)
    have 3: "fsub F (Min (set ?lats)) (fsub F (Max (set ?lats)) (Min (set ?lats))) \<le> Min (set ?lats)"
      "Max (set ?lats) \<le> fadd F (Max (set ?lats)) (fsub F (Max (set ?lats)) (Min (set ?lats)))"
      using F d1 unfolding rounds_monotone_def by blast+
    have 4: "fsub F (Min (set ?lons)) (fsub F (Max (set ?lons)) (Min (set ?lons))) \<le> Min (set ?lons)"
      "Max (set ?lons) \<le> fadd F (Max (set ?lons)) (fsub F (Max (set ?lons)) (Min (set ?lons)))"
      using F d2 unfolding rounds_monotone_def by blast+
    have "?south \<le> snd q" using b(1) 1(1) 3(1) by simp
    moreover have "snd q \<le> ?north" using b(2) 1(2) 3(2) by simp
    moreover have "?west \<le> fst q" using b(3) 2(1) 4(1) by simp
    moreover have "fst q \<le> ?east" using b(4) 2(2) 4(2) by simp
    ultimately show ?thesis using q by (simp add: inside_bbox_def)
  qed
  show "\<forall>n\<in>set path. nodes (graph g1) n = nodes ?G n \<and> nodes ?G n \<noteq> None"
  proof
    fix n assume n: "n \<in> set path"
    from n ex obtain q where q: "nodes ?G n = Some q" by auto
    with keep [OF n] show "nodes (graph g1) n = nodes ?G n \<and> nodes ?G n \<noteq> None"
      by (simp add: g1 truncate_graph_bbox_def Let_def)
  qed
  show "\<forall>ed\<in>set (edges ?G). fst (fst ed) \<in> set path \<and> fst (snd (fst ed)) \<in> set path
      \<longrightarrow> ed \<in> set (edges (graph g1))"
  proof (intro ballI impI)
    fix ed assume ed: "ed \<in> set (edges ?G)"
      and on: "fst (fst ed) \<in> set path \<and> fst (snd (fst ed)) \<in> set path"
    from on ex have "nodes ?G (fst (fst ed)) \<noteq> None" "nodes ?G (fst (snd (fst ed))) \<noteq> None"
      by blast+
    then obtain q r where q: "nodes ?G (fst (fst ed)) = Some q"
      and r: "nodes ?G (fst (snd (fst ed))) = Some r" by (metis not_None_eq)
    from on keep q r have "inside_bbox ?north ?south ?east ?west q"
      "inside_bbox ?north ?south ?east ?west r" by force+
    with ed q r show "ed \<in> set (edges (graph g1))"
      by (simp add: g1 truncate_graph_bbox_def Let_def case_prod_unfold)
  qed
qed

theorem crop_contained_witness:
  "rounds_monotone exact
   \<and> (case crop exact direct_planner far_grafo 1 2 of
         Inl err \<Rightarrow> False
       | Inr g1 \<Rightarrow>
           map fst (edges (graph g1)) = [(1, 2, 0)]
           \<and> nodes (graph g1) 1 = Some (1, 1) \<and> nodes (graph g1) 2 = Some (2, 2)
           \<and> nodes (graph g1) 3 = None
           \<and> (case crop exact direct_planner g1 1 2 of
                 Inl err \<Rightarrow> False
               | Inr g2 \<Rightarrow> subgraph (graph g2) (graph g1)))"
proof -
  have "case crop exact direct_planner far_grafo 1 2 of
          Inl err \<Rightarrow> False
        | Inr g1 \<Rightarrow>
            map fst (edges (graph g1)) = [(1, 2, 0)] \<and> nodes (graph g1) 3 = None
            \<and> (case crop exact direct_planner g1 1 2 of Inl err \<Rightarrow> False | Inr g2 \<Rightarrow> True)"
    by code_simp
  then obtain g1 g2 where g1: "crop exact direct_planner far_grafo 1 2 = Inr g1"
    and e: "map fst (edges (graph g1)) = [(1, 2, 0)]" "nodes (graph g1) 3 = None"
    and g2: "crop exact direct_planner g1 1 2 = Inr g2"
    by (auto split: sum.splits)
  have rm: "rounds_monotone exact" by (simp add: rounds_monotone_def exact_def)
  have p: "direct_planner (graph far_grafo) 1 2 ''travel_time'' = Inr [1, 2]"
    by code_simp
  have wb: "\<forall>n\<in>set [1, 2]. nodes (graph far_grafo) n \<noteq> None \<longrightarrow> within_bounds far_grafo n"
    by (simp add: within_bounds_def far_grafo_def inside_bbox_def)
  from crop_contained [of exact direct_planner far_grafo 1 2 g1 g2 "[1, 2]"] rm g1 g2 p wb
  have s: "subgraph (graph g2) (graph g1)"
    and k: "\<forall>n\<in>set [1, 2]. nodes (graph g1) n = nodes (graph far_grafo) n
        \<and> nodes (graph far_grafo) n \<noteq> None"
    by blast+
  from k have "nodes (graph g1) 1 = Some (1, 1)" "nodes (graph g1) 2 = Some (2, 2)"
    by (simp_all add: far_grafo_def)
  with rm g1 g2 e s show ?thesis by simp
qed

section \<open>What a run of the experiment changes\<close>

lemma same_but_weights_refl: "same_but_weights g g"
  by (simp add: same_but_weights_def)

lemma same_but_weights_trans:
  "same_but_weights g g' \<Longrightarrow> same_but_weights g' g'' \<Longrightarrow> same_but_weights g g''"
  by (simp add: same_but_weights_def)

lemma same_but_weights_set:
  "same_but_weights (g\<lparr>graph := set_edge_attributes (graph g) ws\<rparr>) g"
  by (simp add: same_but_weights_def set_edge_attributes_def comp_def case_prod_unfold
      split: option.splits cong: map_cong)

lemma run_frame_refl: "run_frame self time h h"
  by (simp add: run_frame_def same_but_weights_refl)

lemma run_frame_trans:
  assumes "run_frame self time h h'" "run_frame self time h' h''"
  shows "run_frame self time h h''"
  using assms unfolding run_frame_def
  by (auto intro: same_but_weights_trans)

lemma update_weights_frame:
  assumes "update_weights F weigh self time flooding_points h = Inr (h1, rains)"
  shows "run_frame self time h h1"
proof (cases "case rain_by_time (radar (experiments h self)) (agoras h time) of
    None \<Rightarrow> False | Some A \<Rightarrow> A \<noteq> []")
  case False
  with assms have "h1 = h" by (simp add: update_weights_def Let_def)
  then show ?thesis by (simp add: run_frame_refl)
next
  case True
  with assms obtain ws where "h1 = h\<lparr>grafos := (grafos h)(grafo (experiments h self) :=
      (grafos h (grafo (experiments h self)))
        \<lparr>graph := set_edge_attributes (graph (grafos h (grafo (experiments h self)))) ws\<rparr>)\<rparr>"
    by (auto simp: update_weights_def Let_def split: sum.splits)
  then show ?thesis by (simp add: run_frame_def same_but_weights_set)
qed

lemma iteration_frame:
  assumes "iteration W weigh self time (h, start, edge_rains) = Inr (h', start', edge_rains')"
  shows "run_frame self time h h'"
proof -
  from assms obtain h1 rains where
    u: "update_weights (arith W) weigh self time
          (get_flooding_points (transform W) (flood_df W) (agoras h time)) h = Inr (h1, rains)"
    and h': "h' = h1\<lparr>agoras := (agoras h1)(time := step (agoras h1 time) 600)\<rparr>"
    unfolding iteration_def by (auto simp: Let_def split: sum.splits prod.splits)
  have 1: "run_frame self time h h1" by (rule update_weights_frame [OF u])
  then have "experiments h1 = experiments h" by (simp add: run_frame_def)
  then have 2: "run_frame self time h1 h'"
    by (simp add: h' run_frame_def same_but_weights_refl)
  from 1 2 show ?thesis by (rule run_frame_trans)
qed

lemma main_loop_frame:
  "main_loop fuel W weigh self time (h, start, edge_rains) = Some (Inr (h', edge_rains'))
     \<Longrightarrow> run_frame self time h h'"
proof (induction fuel arbitrary: h start edge_rains)
  case 0
  then have "h' = h" by (simp split: if_splits)
  then show ?case by (simp add: run_frame_refl)
next
  case (Suc fuel)
  show ?case
  proof (cases "start \<noteq> destination (experiments h self)")
    case False
    with Suc.prems have "h' = h" by simp
    then show ?thesis by (simp add: run_frame_refl)
  next
    case True
    with Suc.prems obtain h1 start1 er1 where
      it: "iteration W weigh self time (h, start, edge_rains) = Inr (h1, start1, er1)"
      and rest: "main_loop fuel W weigh self time (h1, start1, er1) = Some (Inr (h', edge_rains'))"
      by (auto split: sum.splits)
    from iteration_frame [OF it] Suc.IH [OF rest] show ?thesis by (rule run_frame_trans)
  qed
qed

lemma map_of_keyed:
  "e \<in> k ` set xs \<Longrightarrow> map_of (map (\<lambda>x. (k x, v (k x))) xs) e = Some (v e)"
  by (induction xs) auto

lemma set_edge_attributes_mem:
  assumes "ed \<in> set (edges (set_edge_attributes G ws))"
  shows "\<exists>ed0\<in>set (edges G).
           ed = (case map_of ws (fst ed0) of
                   None \<Rightarrow> (fst ed0, snd ed0)
                 | Some w \<Rightarrow> (fst ed0, (snd ed0)\<lparr>weight := Some w\<rparr>))"
proof -
  from assms have "ed \<in> (\<lambda>ed0. case map_of ws (fst ed0) of
                   None \<Rightarrow> (fst ed0, snd ed0)
                 | Some w \<Rightarrow> (fst ed0, (snd ed0)\<lparr>weight := Some w\<rparr>)) ` set (edges G)"
    by (simp add: set_edge_attributes_def case_prod_unfold)
  then show ?thesis by blast
qed

lemma weights_overwritten:
  assumes "rain_by_time (radar (experiments h self)) (agoras h time) = Some A"
    and "update_weights F weigh self time flooding_points h = Inr (h1, rains)"
  shows "\<forall>ed\<in>set (edges (graph (grafos h1 (grafo (experiments h self))))).
           weight (snd ed)
             = Some (weigh (graph (grafos h (grafo (experiments h self)))) (fst ed) flooding_points rains)"
proof -
  let ?g = "grafo (experiments h self)"
  let ?G = "graph (grafos h ?g)"
  let ?ws = "map (\<lambda>e. (e, weigh ?G e flooding_points rains)) (map fst (edges ?G))"
  from assms(1) have ne: "A \<noteq> []" by (auto simp: rain_by_time_def split: option.splits if_splits)
  with assms have h1: "h1 = h\<lparr>grafos := (grafos h)(?g :=
      (grafos h ?g)\<lparr>graph := set_edge_attributes ?G ?ws\<rparr>)\<rparr>"
    by (auto simp: update_weights_def Let_def split: sum.splits)
  have m: "map_of ?ws e = Some (weigh ?G e flooding_points rains)" if "e \<in> fst ` set (edges ?G)" for e
    using that map_of_keyed [of e fst "edges ?G" "\<lambda>e. weigh ?G e flooding_points rains"]
    by (simp add: comp_def)
  show ?thesis
  proof
    fix ed assume "ed \<in> set (edges (graph (grafos h1 ?g)))"
    then have "ed \<in> set (edges (set_edge_attributes ?G ?ws))" by (simp add: h1)
    from set_edge_attributes_mem [OF this] obtain ed0 where ed0: "ed0 \<in> set (edges ?G)"
      and ed: "ed = (case map_of ?ws (fst ed0) of None \<Rightarrow> (fst ed0, snd ed0)
                     | Some w \<Rightarrow> (fst ed0, (snd ed0)\<lparr>weight := Some w\<rparr>))"
      by blast
    from ed0 have "map_of ?ws (fst ed0) = Some (weigh ?G (fst ed0) flooding_points rains)"
      by (intro m) simp
    with ed show "weight (snd ed) = Some (weigh ?G (fst ed) flooding_points rains)" by simp
  qed
qed

text \<open>
  C10. Let the clock object of the experiment be allocated. A run of
  \<^verbatim>\<open>Experiment.experiment\<close> that returns leaves every experiment object as it was, so the
  origin, the destination and the references to the clock and to the network of the
  experiment itself; it leaves every clock object that existed as it was, so the initial
  clock: the loop steps a copy, allocated by the run. No other \<^verbatim>\<open>Grafo\<close> object changes;
  the one of the experiment is mutated: on return it is, but for the weights of its edges,
  what \<^verbatim>\<open>crop\<close> made of it at the start of the run. And in an iteration at whose timestamp
  the radar has a grid, the update of the weights gives to every edge of the graph, as its
  weight attribute, the value of the weight function on that edge, and changes nothing else
  of the object.
\<close>

theorem experiment_frame:
  assumes "agora (experiments h self) < next_agora h"
    and "experiment_fn fuel W weigh self h = Some (Inr (h', edge_rains))"
  shows "experiments h' = experiments h
       \<and> (\<forall>r<next_agora h. agoras h' r = agoras h r)
       \<and> next_agora h' = Suc (next_agora h)
       \<and> (\<forall>r. r \<noteq> grafo (experiments h self) \<longrightarrow> grafos h' r = grafos h r)
       \<and> (\<exists>cropped. crop (arith W) (astar_path W) (grafos h (grafo (experiments h self)))
                       (origin (experiments h self)) (destination (experiments h self))
                     = Inr cropped
                   \<and> same_but_weights (grafos h' (grafo (experiments h self))) cropped)
       \<and> (rain_by_time (radar (experiments hi self)) (agoras hi time) = Some A
            \<and> update_weights F weigh self time flooding_points hi = Inr (hj, rains)
          \<longrightarrow> (\<forall>ed\<in>set (edges (graph (grafos hj (grafo (experiments hi self))))).
                  weight (snd ed)
                    = Some (weigh (graph (grafos hi (grafo (experiments hi self)))) (fst ed)
                              flooding_points rains))
              \<and> same_but_weights (grafos hj (grafo (experiments hi self)))
                   (grafos hi (grafo (experiments hi self))))"
proof -
  let ?me = "experiments h self"
  let ?g = "grafo ?me"
  let ?time = "next_agora h"
  let ?h1 = "h\<lparr>agoras := (agoras h)(?time := agoras h (agora ?me)), next_agora := Suc ?time\<rparr>"
  from assms(2) obtain cropped where
    c: "crop (arith W) (astar_path W) (grafos h ?g) (origin ?me) (destination ?me) = Inr cropped"
    and m: "main_loop fuel W weigh self ?time
        (?h1\<lparr>grafos := (grafos ?h1)(?g := cropped)\<rparr>, origin ?me, []) = Some (Inr (h', edge_rains))"
    unfolding experiment_fn_def by (auto simp: Let_def split: sum.splits)
  let ?h2 = "?h1\<lparr>grafos := (grafos ?h1)(?g := cropped)\<rparr>"
  from main_loop_frame [OF m] have f: "run_frame self ?time ?h2 h'" .
  have 1: "experiments h' = experiments h" using f by (simp add: run_frame_def)
  have 2: "\<forall>r<next_agora h. agoras h' r = agoras h r"
  proof (intro allI impI)
    fix r assume "r < next_agora h"
    then have "r \<noteq> ?time" by simp
    with f show "agoras h' r = agoras h r" by (simp add: run_frame_def)
  qed
  have 3: "next_agora h' = Suc (next_agora h)" using f by (simp add: run_frame_def)
  have 4: "\<forall>r. r \<noteq> ?g \<longrightarrow> grafos h' r = grafos h r" using f by (simp add: run_frame_def)
  have 5: "same_but_weights (grafos h' ?g) cropped" using f by (simp add: run_frame_def)
  have 6: "(\<forall>ed\<in>set (edges (graph (grafos hj (grafo (experiments hi self))))).
                  weight (snd ed)
                    = Some (weigh (graph (grafos hi (grafo (experiments hi self)))) (fst ed)
                              flooding_points rains))
              \<and> same_but_weights (grafos hj (grafo (experiments hi self)))
                   (grafos hi (grafo (experiments hi self)))"
    if "rain_by_time (radar (experiments hi self)) (agoras hi time) = Some A
            \<and> update_weights F weigh self time flooding_points hi = Inr (hj, rains)"
  proof -
    from that have a: "rain_by_time (radar (experiments hi self)) (agoras hi time) = Some A"
      and u: "update_weights F weigh self time flooding_points hi = Inr (hj, rains)" by simp_all
    from update_weights_frame [OF u] weights_overwritten [OF a u] show ?thesis
      by (simp add: run_frame_def)
  qed
  from 1 2 3 4 5 6 c show ?thesis by blast
qed

theorem experiment_frame_witness:
  "agora (experiments far_store 0) < next_agora far_store
   \<and> (case experiment_fn 1 example_world flat_weight 0 far_store of
         Some (Inr (h', edge_rains)) \<Rightarrow>
           edge_rains = [((1, 2, 0), 5)]
           \<and> experiments h' = experiments far_store
           \<and> agoras h' 0 = noon
           \<and> agoras h' 1 = \<lparr>year = 2019, month = 2, day = 10, hour = 12, minute = 10, second = 0\<rparr>
           \<and> nodes (graph (grafos far_store 0)) 3 = Some (9, 9)
           \<and> nodes (graph (grafos h' 0)) 3 = None
           \<and> map (\<lambda>ed. (fst ed, weight (snd ed))) (edges (graph (grafos far_store 0)))
               = [((1, 2, 0), None), ((2, 3, 0), None)]
           \<and> map (\<lambda>ed. (fst ed, weight (snd ed))) (edges (graph (grafos h' 0)))
               = [((1, 2, 0), Some 5)]
       | _ \<Rightarrow> False)"
proof -
  have a: "agora (experiments far_store 0) < next_agora far_store"
    by (simp add: far_store_def)
  have "case experiment_fn 1 example_world flat_weight 0 far_store of
         Some (Inr (h', edge_rains)) \<Rightarrow>
           edge_rains = [((1, 2, 0), 5)]
           \<and> agoras h' 1 = \<lparr>year = 2019, month = 2, day = 10, hour = 12, minute = 10, second = 0\<rparr>
           \<and> nodes (graph (grafos far_store 0)) 3 = Some (9, 9)
           \<and> nodes (graph (grafos h' 0)) 3 = None
           \<and> map (\<lambda>ed. (fst ed, weight (snd ed))) (edges (graph (grafos far_store 0)))
               = [((1, 2, 0), None), ((2, 3, 0), None)]
           \<and> map (\<lambda>ed. (fst ed, weight (snd ed))) (edges (graph (grafos h' 0)))
               = [((1, 2, 0), Some 5)]
       | _ \<Rightarrow> False"
    by code_simp
  then obtain h' edge_rains where
    run: "experiment_fn 1 example_world flat_weight 0 far_store = Some (Inr (h', edge_rains))"
    and r: "edge_rains = [((1, 2, 0), 5)]"
      "agoras h' 1 = \<lparr>year = 2019, month = 2, day = 10, hour = 12, minute = 10, second = 0\<rparr>"
      "nodes (graph (grafos far_store 0)) 3 = Some (9, 9)"
      "nodes (graph (grafos h' 0)) 3 = None"
      "map (\<lambda>ed. (fst ed, weight (snd ed))) (edges (graph (grafos far_store 0)))
               = [((1, 2, 0), None), ((2, 3, 0), None)]"
      "map (\<lambda>ed. (fst ed, weight (snd ed))) (edges (graph (grafos h' 0)))
               = [((1, 2, 0), Some 5)]"
    by (auto split: option.splits sum.splits)
  from experiment_frame [OF a run]
  have e: "experiments h' = experiments far_store"
    and t: "\<forall>r<next_agora far_store. agoras h' r = agoras far_store r"
    by blast+
  from t have "agoras h' 0 = noon" by (simp add: far_store_def)
  with a run r e show ?thesis by simp
qed


end
